theory Spec2Isabelle
  imports Main "HOL-Library.Word" "HOL-Library.Multiset"
begin

unbundle bit_operations_syntax

section \<open>Data model of the sequencer tile (fd_sequencer_tile.h)\<close>

text \<open>
  The C types \<open>ulong\<close>, \<open>long\<close>, \<open>uint\<close> and \<open>uchar\<close> are 64, 64, 32 and 8 bit
  machine integers; \<open>long\<close> values are read through \<open>sint\<close> where their sign matters.
  A \<open>uchar\<close> array is a list of bytes.
\<close>

type_synonym ulong = "64 word"
type_synonym long = "64 word"
type_synonym uint = "32 word"
type_synonym uchar = "8 word"

definition FD_SEQUENCER_TILE_ALIGN :: ulong where
  "FD_SEQUENCER_TILE_ALIGN = 128"

definition FD_SEQUENCER_TILE_FOOTPRINT :: ulong where
  "FD_SEQUENCER_TILE_FOOTPRINT = push_bit 22 1"

definition FD_SEQUENCER_TXN_MTU :: ulong where
  "FD_SEQUENCER_TXN_MTU = 1232"

definition FD_SEQUENCER_QUEUE_MAX :: ulong where
  "FD_SEQUENCER_QUEUE_MAX = 65536"

record fd_sequencer_cfg =
  block_time_ns :: ulong
  max_txns_per_block :: ulong
  epoch_length_slots :: ulong

definition FD_SEQUENCER_CFG_DEFAULT :: fd_sequencer_cfg where
  "FD_SEQUENCER_CFG_DEFAULT =
     \<lparr> block_time_ns = 400000000, max_txns_per_block = 10000, epoch_length_slots = 432000 \<rparr>"

record fd_sequencer_txn =
  payload :: "uchar list"
  payload_sz :: ulong
  fee :: ulong
  received_ticks :: long
  sig :: "uchar list"

record fd_sequencer_block_hdr =
  hdr_slot :: ulong
  hdr_parent_hash :: "uchar list"
  hdr_merkle_root :: "uchar list"
  hdr_timestamp :: long
  hdr_sequencer_pubkey :: "uchar list"
  hdr_txn_count :: uint
  hdr_signature :: "uchar list"
  hdr_padding :: "uchar list"

record fd_sequencer_tile =
  sequencer_identity :: "uchar list"
  sequencer_privkey :: "uchar list"
  current_slot :: ulong
  current_epoch :: ulong
  block_count :: ulong
  txn_count :: ulong
  block_start_ticks :: long
  parent_hash :: "uchar list"
  tx_queue :: "fd_sequencer_txn list"
  tx_queue_cnt :: ulong
  tx_queue_cap :: ulong
  fee_total :: ulong
  last_metrics_ticks :: long
  cfg :: fd_sequencer_cfg
  frag_buf :: "uchar list"
  frag_buf_sz :: ulong

section \<open>Transaction priority queue (fd_sequencer.h)\<close>

text \<open>
  The sift-up loop of \<open>fd_sequencer_txn_queue_push\<close>.  The parent index
  \<open>(idx - 1) / 2\<close> is smaller than a positive \<open>idx\<close>, so the loop always ends.
\<close>

function push_sift_up :: "fd_sequencer_txn list \<Rightarrow> ulong \<Rightarrow> fd_sequencer_txn list" where
  "push_sift_up q idx =
     (if idx > 0 then
        (if fee (q ! unat ((idx - 1) div 2)) \<ge> fee (q ! unat idx) then q
         else push_sift_up
                (q[unat idx := q ! unat ((idx - 1) div 2),
                   unat ((idx - 1) div 2) := q ! unat idx])
                ((idx - 1) div 2))
      else q)"
  by pat_completeness auto
termination
proof (relation "measure (\<lambda>(q, idx). unat idx)")
  show "wf (measure (\<lambda>(q, idx). unat idx))" by simp
next
  fix q :: "fd_sequencer_txn list" and idx :: ulong
  assume "0 < idx"
  then have nz: "idx \<noteq> 0" by auto
  then have pos: "0 < unat idx" by (simp add: unat_gt_0)
  have "unat ((idx - 1) div 2) = (unat idx - 1) div 2"
    using nz by (simp add: unat_div unat_minus_one)
  with pos have "unat ((idx - 1) div 2) < unat idx" by arith
  then show "((q[unat idx := q ! unat ((idx - 1) div 2),
                 unat ((idx - 1) div 2) := q ! unat idx], (idx - 1) div 2), (q, idx))
             \<in> measure (\<lambda>(q, idx). unat idx)"
    by simp
qed

declare push_sift_up.simps [simp del]

definition fd_sequencer_txn_queue_push ::
    "fd_sequencer_tile \<Rightarrow> fd_sequencer_txn \<Rightarrow> fd_sequencer_tile \<times> int" where
  "fd_sequencer_txn_queue_push tile txn =
     (if tx_queue_cnt tile \<ge> tx_queue_cap tile then (tile, 0)
      else (tile\<lparr> tx_queue := push_sift_up ((tx_queue tile)[unat (tx_queue_cnt tile) := txn])
                                             (tx_queue_cnt tile),
                  tx_queue_cnt := tx_queue_cnt tile + 1 \<rparr>, 1))"

text \<open>
  The sift-down loop of \<open>fd_sequencer_txn_queue_pop\<close> is a \<open>for(;;)\<close> that leaves only
  through \<open>best == idx\<close>.  The child indices \<open>2 * idx + 1\<close> and \<open>2 * idx + 2\<close> are
  computed in 64-bit arithmetic and may wrap around, so the loop is modelled as a partial
  function: \<open>None\<close> stands for a loop that never leaves.  \<open>pop_best\<close> is the index the
  two \<open>if\<close> statements of one iteration select.
\<close>

definition pop_best :: "fd_sequencer_txn list \<Rightarrow> ulong \<Rightarrow> ulong \<Rightarrow> ulong" where
  "pop_best q cnt idx =
     (let left = 2 * idx + 1;
          right = 2 * idx + 2;
          best = idx;
          best = (if left < cnt \<and> fee (q ! unat left) > fee (q ! unat best) then left else best);
          best = (if right < cnt \<and> fee (q ! unat right) > fee (q ! unat best) then right else best)
      in best)"

partial_function (option) pop_sift_down ::
    "fd_sequencer_txn list \<Rightarrow> ulong \<Rightarrow> ulong \<Rightarrow> fd_sequencer_txn list option" where
  "pop_sift_down q cnt idx =
     (if pop_best q cnt idx = idx then Some q
      else pop_sift_down
             (q[unat idx := q ! unat (pop_best q cnt idx),
                unat (pop_best q cnt idx) := q ! unat idx])
             cnt (pop_best q cnt idx))"

declare pop_sift_down.simps [code]

text \<open>
  \<open>fd_sequencer_txn_queue_pop\<close> takes the previous contents of \<open>*out\<close> and returns the tile,
  the contents of \<open>*out\<close> and the C return value (1 on success, 0 on an empty queue).
\<close>

definition fd_sequencer_txn_queue_pop ::
    "fd_sequencer_tile \<Rightarrow> fd_sequencer_txn
       \<Rightarrow> (fd_sequencer_tile \<times> fd_sequencer_txn \<times> int) option" where
  "fd_sequencer_txn_queue_pop tile out =
     (if tx_queue_cnt tile = 0 then Some (tile, out, 0)
      else if tx_queue_cnt tile - 1 > 0 then
        (case pop_sift_down ((tx_queue tile)[0 := tx_queue tile ! unat (tx_queue_cnt tile - 1)])
                            (tx_queue_cnt tile - 1) 0 of
           None \<Rightarrow> None
         | Some q \<Rightarrow> Some (tile\<lparr> tx_queue := q, tx_queue_cnt := tx_queue_cnt tile - 1 \<rparr>,
                           tx_queue tile ! 0, 1))
      else Some (tile\<lparr> tx_queue_cnt := tx_queue_cnt tile - 1 \<rparr>, tx_queue tile ! 0, 1))"

text \<open>\<open>fd_sequencer_txn_queue_peek\<close>: \<open>None\<close> is the NULL pointer.\<close>

definition fd_sequencer_txn_queue_peek :: "fd_sequencer_tile \<Rightarrow> fd_sequencer_txn option" where
  "fd_sequencer_txn_queue_peek tile =
     (if tx_queue_cnt tile = 0 then None else Some (tx_queue tile ! 0))"

definition fd_sequencer_txn_queue_cnt :: "fd_sequencer_tile \<Rightarrow> ulong" where
  "fd_sequencer_txn_queue_cnt tile = tx_queue_cnt tile"

section \<open>Heap predicates\<close>

text \<open>
  The entries stored in the queue are the first \<open>tx_queue_cnt\<close> cells of the array.  The
  max-heap property compares every non-root cell with its parent cell \<open>(i - 1) / 2\<close>.
\<close>

definition stored :: "fd_sequencer_tile \<Rightarrow> fd_sequencer_txn list" where
  "stored tile = take (unat (tx_queue_cnt tile)) (tx_queue tile)"

definition is_max_heap :: "fd_sequencer_txn list \<Rightarrow> nat \<Rightarrow> bool" where
  "is_max_heap q n \<longleftrightarrow> (\<forall>i \<in> {1..<n}. fee (q ! i) \<le> fee (q ! ((i - 1) div 2)))"

text \<open>
  A queue is well formed when its count is within its capacity, the array has a cell for
  every index below the capacity, and the capacity is below \<open>2^63\<close> (an array of that many
  1320-byte entries does not fit a 64-bit address space, so this holds for every array the
  C code can be given).  Under it every array access of push, pop and peek is in range.
\<close>

definition queue_wf :: "fd_sequencer_tile \<Rightarrow> bool" where
  "queue_wf tile \<longleftrightarrow>
     tx_queue_cnt tile \<le> tx_queue_cap tile \<and>
     unat (tx_queue_cap tile) \<le> length (tx_queue tile) \<and>
     unat (tx_queue_cap tile) < 2 ^ 63"

definition queue_inv :: "fd_sequencer_tile \<Rightarrow> bool" where
  "queue_inv tile \<longleftrightarrow> queue_wf tile \<and> is_max_heap (tx_queue tile) (unat (tx_queue_cnt tile))"

text \<open>Loop invariants of the two sift loops: the heap order holds except around cell \<open>k\<close>.\<close>

definition heap_except_up :: "fd_sequencer_txn list \<Rightarrow> nat \<Rightarrow> nat \<Rightarrow> bool" where
  "heap_except_up q n k \<longleftrightarrow>
     (\<forall>i \<in> {1..<n}. i \<noteq> k \<longrightarrow> fee (q ! i) \<le> fee (q ! ((i - 1) div 2))) \<and>
     (\<forall>i \<in> {1..<n}. 0 < k \<longrightarrow> (i - 1) div 2 = k \<longrightarrow> fee (q ! i) \<le> fee (q ! ((k - 1) div 2)))"

definition heap_except_down :: "fd_sequencer_txn list \<Rightarrow> nat \<Rightarrow> nat \<Rightarrow> bool" where
  "heap_except_down q n k \<longleftrightarrow>
     (\<forall>i \<in> {1..<n}. (i - 1) div 2 \<noteq> k \<longrightarrow> fee (q ! i) \<le> fee (q ! ((i - 1) div 2))) \<and>
     (\<forall>i \<in> {1..<n}. 0 < k \<longrightarrow> (i - 1) div 2 = k \<longrightarrow> fee (q ! i) \<le> fee (q ! ((k - 1) div 2)))"


section \<open>Memory helpers and layout constants\<close>

text \<open>
  \<open>fd_memcpy dst src n\<close> is the destination array after copying the first \<open>n\<close> bytes of
  \<open>src\<close> over its first \<open>n\<close> bytes; \<open>fd_memset\<close> likewise for a constant byte.
\<close>

definition fd_memcpy :: "uchar list \<Rightarrow> uchar list \<Rightarrow> nat \<Rightarrow> uchar list" where
  "fd_memcpy dst src n = take n src @ drop n dst"

definition fd_memset :: "uchar list \<Rightarrow> uchar \<Rightarrow> nat \<Rightarrow> uchar list" where
  "fd_memset dst c n = replicate n c @ drop n dst"

text \<open>
  Sizes of the structures on the 64-bit target (8-byte \<open>ulong\<close>, \<open>long\<close> and pointers,
  4-byte \<open>uint\<close>), written as the sum of the field sizes in declaration order.  Every field
  offset is already aligned, so the only padding is the 4 bytes at the end of the block
  header: its fields end at byte 180 and the size is rounded up to 184.
\<close>

definition sizeof_fd_sequencer_txn :: ulong where
  "sizeof_fd_sequencer_txn = FD_SEQUENCER_TXN_MTU + 8 + 8 + 8 + 64"

definition sizeof_fd_sequencer_cfg :: ulong where
  "sizeof_fd_sequencer_cfg = 8 + 8 + 8"

definition sizeof_fd_sequencer_tile :: ulong where
  "sizeof_fd_sequencer_tile =
     32 + 64 + 8 + 8 + 8 + 8 + 8 + 32 + 8 + 8 + 8 + 8 + 8 + sizeof_fd_sequencer_cfg
       + FD_SEQUENCER_TXN_MTU + 8"

definition offsetof_signature :: ulong where
  "offsetof_signature = 8 + 32 + 32 + 8 + 32 + 4"

definition sizeof_fd_sequencer_block_hdr :: ulong where
  "sizeof_fd_sequencer_block_hdr = offsetof_signature + 64 + 4"

text \<open>Little-endian bytes of a machine integer, and the bytes of a block header in memory.\<close>

definition le_bytes :: "nat \<Rightarrow> 'a::len word \<Rightarrow> uchar list" where
  "le_bytes n w = map (\<lambda>i. ucast (drop_bit (8 * i) w)) [0..<n]"

definition hdr_bytes :: "fd_sequencer_block_hdr \<Rightarrow> uchar list" where
  "hdr_bytes hdr =
     le_bytes 8 (hdr_slot hdr) @ hdr_parent_hash hdr @ hdr_merkle_root hdr @
     le_bytes 8 (hdr_timestamp hdr) @ hdr_sequencer_pubkey hdr @
     le_bytes 4 (hdr_txn_count hdr) @ hdr_signature hdr @ hdr_padding hdr"

text \<open>The header after \<open>fd_memset( hdr, 0, sizeof(fd_sequencer_block_hdr_t) )\<close>.\<close>

definition hdr_zero :: fd_sequencer_block_hdr where
  "hdr_zero =
     \<lparr> hdr_slot = 0, hdr_parent_hash = replicate 32 0, hdr_merkle_root = replicate 32 0,
       hdr_timestamp = 0, hdr_sequencer_pubkey = replicate 32 0, hdr_txn_count = 0,
       hdr_signature = replicate 64 0, hdr_padding = replicate 4 0 \<rparr>"

text \<open>The entry after \<open>fd_memset( &txn, 0, sizeof(fd_sequencer_txn_t) )\<close>.\<close>

definition txn_zero :: fd_sequencer_txn where
  "txn_zero =
     \<lparr> payload = replicate (unat FD_SEQUENCER_TXN_MTU) 0, payload_sz = 0, fee = 0,
       received_ticks = 0, sig = replicate 64 0 \<rparr>"

section \<open>Block construction (fd_sequencer.h)\<close>

text \<open>
  The hash and signature primitives and the clocks are not part of the sequencer sources;
  they are parameters: \<open>sha256 m\<close> is the digest of the bytes \<open>m\<close> (init, append and fini
  together hash the concatenation of what was appended), \<open>ed25519_sign m pub priv\<close> the
  signature of \<open>m\<close>, \<open>wallclock\<close> the value of \<open>fd_log_wallclock()\<close>.

  The drain loop of \<open>fd_sequencer_build_block\<close>: \<open>txns_out\<close> is the caller's array, \<open>n\<close> the
  \<open>uint\<close> counter and \<open>max_txns\<close> the bound after its cast to \<open>uint\<close>.
\<close>

function build_block_drain ::
    "fd_sequencer_tile \<Rightarrow> fd_sequencer_txn list \<Rightarrow> uint \<Rightarrow> uint
       \<Rightarrow> (fd_sequencer_tile \<times> fd_sequencer_txn list \<times> uint) option" where
  "build_block_drain tile txns_out n max_txns =
     (if n < max_txns then
        (case fd_sequencer_txn_queue_pop tile (txns_out ! unat n) of
           None \<Rightarrow> None
         | Some (tile', out, r) \<Rightarrow>
             if r = 0 then Some (tile', txns_out, n)
             else build_block_drain tile' (txns_out[unat n := out]) (n + 1) max_txns)
      else Some (tile, txns_out, n))"
  by pat_completeness auto
termination
proof (relation "measure (\<lambda>(tile, txns_out, n, max_txns). unat max_txns - unat n)")
  show "wf (measure (\<lambda>(tile, txns_out, n, max_txns). unat max_txns - unat n))" by simp
next
  fix tile :: fd_sequencer_tile and txns_out :: "fd_sequencer_txn list" and n max_txns :: uint
    and tile' :: fd_sequencer_tile and out :: fd_sequencer_txn
  assume lt: "n < max_txns"
  then have l: "unat n < unat max_txns" by (simp add: word_less_nat_alt)
  have "unat max_txns < 2 ^ 32" using unsigned_less[of max_txns, where 'a=nat] by simp
  then have "unat n + unat (1 :: uint) < 2 ^ LENGTH(32)" using l by simp
  then have "unat (n + 1) = unat n + 1" using unat_add_lem[of n 1] by simp
  then show "((tile', txns_out[unat n := out], n + 1, max_txns), (tile, txns_out, n, max_txns))
             \<in> measure (\<lambda>(tile, txns_out, n, max_txns). unat max_txns - unat n)"
    using l by simp
qed

declare build_block_drain.simps [simp del]

definition fd_sequencer_build_block ::
    "(uchar list \<Rightarrow> uchar list) \<Rightarrow> (uchar list \<Rightarrow> uchar list \<Rightarrow> uchar list \<Rightarrow> uchar list) \<Rightarrow> long
       \<Rightarrow> fd_sequencer_tile \<Rightarrow> fd_sequencer_block_hdr \<Rightarrow> fd_sequencer_txn list \<Rightarrow> ulong
       \<Rightarrow> (fd_sequencer_tile \<times> fd_sequencer_block_hdr \<times> fd_sequencer_txn list \<times> uint) option" where
  "fd_sequencer_build_block sha256 ed25519_sign wallclock tile hdr txns_out max_txns =
     (case build_block_drain tile txns_out 0 (ucast max_txns) of
        None \<Rightarrow> None
      | Some (tile1, txns1, n) \<Rightarrow>
          if n = 0 then
            Some (tile1,
                  hdr_zero\<lparr> hdr_slot := current_slot tile1,
                             hdr_parent_hash :=
                               fd_memcpy (hdr_parent_hash hdr_zero) (parent_hash tile1) 32,
                             hdr_sequencer_pubkey :=
                               fd_memcpy (hdr_sequencer_pubkey hdr_zero) (sequencer_identity tile1) 32,
                             hdr_txn_count := 0 \<rparr>,
                  txns1, 0)
          else
            (let merkle = sha256 (concat (map (\<lambda>i. take 64 (sig (txns1 ! i))) [0..<unat n]));
                 hdr1 = hdr\<lparr> hdr_slot := current_slot tile1,
                             hdr_txn_count := n,
                             hdr_timestamp := wallclock,
                             hdr_parent_hash :=
                               fd_memcpy (hdr_parent_hash hdr) (parent_hash tile1) 32,
                             hdr_merkle_root := fd_memcpy (hdr_merkle_root hdr) merkle 32,
                             hdr_sequencer_pubkey :=
                               fd_memcpy (hdr_sequencer_pubkey hdr) (sequencer_identity tile1) 32 \<rparr>;
                 sign_len = offsetof_signature;
                 hdr2 = hdr1\<lparr> hdr_signature :=
                                fd_memcpy (hdr_signature hdr1)
                                  (ed25519_sign (take (unat sign_len) (hdr_bytes hdr1))
                                     (sequencer_identity tile1) (sequencer_privkey tile1)) 64 \<rparr>;
                 tile2 = tile1\<lparr> fee_total :=
                                  fold (\<lambda>i total. total + fee (txns1 ! i)) [0..<unat n]
                                       (fee_total tile1) \<rparr>
             in Some (tile2, hdr2, txns1, n)))"

section \<open>Slot and epoch advancement (fd_sequencer.h)\<close>

text \<open>
  The remainder \<open>current_slot % epoch_length_slots\<close> is evaluated only when the new slot is
  positive; with an epoch length of 0 the division traps, which the model reports as a fault
  instead of a result.  The other fault is a stack frame that does not fit the stack of
  the calling thread (see the housekeeping callback).
\<close>

datatype fault = DivideByZero | StackOverflow

definition fd_sequencer_advance_slot :: "fd_sequencer_tile \<Rightarrow> fault + (fd_sequencer_tile \<times> int)" where
  "fd_sequencer_advance_slot tile =
     (let tile1 = tile\<lparr> current_slot := current_slot tile + 1,
                        block_count := block_count tile + 1 \<rparr>
      in if current_slot tile1 > 0 then
           (if epoch_length_slots (cfg tile1) = 0 then Inl DivideByZero
            else if current_slot tile1 mod epoch_length_slots (cfg tile1) = 0
                 then Inr (tile1\<lparr> current_epoch := current_epoch tile1 + 1 \<rparr>, 1)
                 else Inr (tile1, 0))
         else Inr (tile1, 0))"

section \<open>Tile lifecycle and callbacks (fd_sequencer_tile.c)\<close>

definition fd_sequencer_tile_scratch_align :: ulong where
  "fd_sequencer_tile_scratch_align = FD_SEQUENCER_TILE_ALIGN"

definition fd_sequencer_tile_scratch_footprint :: ulong where
  "fd_sequencer_tile_scratch_footprint = FD_SEQUENCER_TILE_FOOTPRINT"

text \<open>
  \<open>fd_sequencer_tile_unprivileged_init\<close>: \<open>None\<close> is the NULL return.  \<open>scratch_queue\<close> is
  the scratch memory behind the tile structure, read as queue entries; \<open>ticks\<close> is the value
  of \<open>fd_tickcount()\<close>.  Log calls do not change the state and are left out.
\<close>

definition fd_sequencer_tile_unprivileged_init ::
    "fd_sequencer_txn list \<Rightarrow> ulong \<Rightarrow> long \<Rightarrow> fd_sequencer_tile option" where
  "fd_sequencer_tile_unprivileged_init scratch_queue scratch_sz ticks =
     (let required = sizeof_fd_sequencer_tile + FD_SEQUENCER_QUEUE_MAX * sizeof_fd_sequencer_txn
      in if scratch_sz < required then None
         else Some \<lparr> sequencer_identity = replicate 32 0,
                     sequencer_privkey = replicate 64 0,
                     current_slot = 0,
                     current_epoch = 0,
                     block_count = 0,
                     txn_count = 0,
                     block_start_ticks = ticks,
                     parent_hash = fd_memset (replicate 32 0) 0 32,
                     tx_queue = scratch_queue,
                     tx_queue_cnt = 0,
                     tx_queue_cap = FD_SEQUENCER_QUEUE_MAX,
                     fee_total = 0,
                     last_metrics_ticks = ticks,
                     cfg = FD_SEQUENCER_CFG_DEFAULT,
                     frag_buf = replicate (unat FD_SEQUENCER_TXN_MTU) 0,
                     frag_buf_sz = 0 \<rparr>)"

text \<open>
  \<open>fd_sequencer_tile_during_frag\<close>: \<open>chunk\<close> is the memory the chunk pointer refers to.  The
  unused arguments \<open>in_idx\<close>, \<open>seq\<close>, \<open>sig\<close> and \<open>opt_filter\<close> are left out.
\<close>

definition fd_sequencer_tile_during_frag ::
    "fd_sequencer_tile \<Rightarrow> uchar list \<Rightarrow> ulong \<Rightarrow> fd_sequencer_tile" where
  "fd_sequencer_tile_during_frag tile chunk sz =
     (if sz > FD_SEQUENCER_TXN_MTU then tile\<lparr> frag_buf_sz := 0 \<rparr>
      else tile\<lparr> frag_buf := fd_memcpy (frag_buf tile) chunk (unat sz), frag_buf_sz := sz \<rparr>)"

text \<open>
  \<open>fd_sequencer_tile_after_frag\<close>: \<open>opt_sig\<close> is \<open>None\<close> for a NULL pointer and otherwise the
  value pointed to; \<open>ticks\<close> is the value of \<open>fd_tickcount()\<close>.
\<close>

definition fd_sequencer_tile_after_frag ::
    "fd_sequencer_tile \<Rightarrow> ulong option \<Rightarrow> long \<Rightarrow> fd_sequencer_tile" where
  "fd_sequencer_tile_after_frag tile opt_sig ticks =
     (if frag_buf_sz tile = 0 then tile
      else
        (let txn1 = txn_zero\<lparr> payload := fd_memcpy (payload txn_zero) (frag_buf tile)
                                              (unat (frag_buf_sz tile)),
                               payload_sz := frag_buf_sz tile,
                               received_ticks := ticks \<rparr>;
             txn2 = (if payload_sz txn1 \<ge> 65
                     then txn1\<lparr> sig := fd_memcpy (sig txn1) (drop 1 (payload txn1)) 64 \<rparr>
                     else txn1);
             txn3 = txn2\<lparr> fee := 5000 \<rparr>;
             txn4 = (case opt_sig of
                       None \<Rightarrow> txn3
                     | Some s \<Rightarrow> if s > 0 then txn3\<lparr> fee := s \<rparr> else txn3)
         in case fd_sequencer_txn_queue_push tile txn4 of
              (tile', r) \<Rightarrow>
                if r = 0 then tile'\<lparr> frag_buf_sz := 0 \<rparr>
                else tile'\<lparr> txn_count := txn_count tile' + 1, frag_buf_sz := 0 \<rparr>))"

text \<open>
  \<open>fd_sequencer_tile_during_housekeeping\<close>: \<open>now\<close> is the value of \<open>fd_tickcount()\<close>,
  \<open>hdr\<close> and \<open>txns_out\<close> are the previous contents of the stack variables of these names.
  The C function returns nothing and does not publish the block yet; the model returns,
  next to the tile, the header and the drained entries of the block it produced, or \<open>None\<close>
  when the interval has not elapsed.  \<open>housekeeping_elapsed_ns\<close> is the elapsed time
  the function computes first, clamped at zero.

  The block-producing part of the function keeps \<open>txns_out[ 10000 ]\<close> and \<open>hdr\<close> on the
  stack: \<open>housekeeping_stack_frame\<close> = 10000 * 1320 + 184 = 13200184 bytes.  \<open>stack_avail\<close> is
  the number of bytes of stack the calling thread has left for these two variables; when
  they do not fit, the access to them faults and the function does not return.  The model
  places the fault where the source declares the variables, after the early return.
\<close>

definition housekeeping_stack_frame :: ulong where
  "housekeeping_stack_frame = 10000 * sizeof_fd_sequencer_txn + sizeof_fd_sequencer_block_hdr"

definition housekeeping_elapsed_ns :: "fd_sequencer_tile \<Rightarrow> long \<Rightarrow> ulong" where
  "housekeeping_elapsed_ns tile now =
     (let elapsed_ticks = now - block_start_ticks tile;
          elapsed_ticks = (if elapsed_ticks <s 0 then 0 else elapsed_ticks)
      in elapsed_ticks)"

definition fd_sequencer_tile_during_housekeeping ::
    "(uchar list \<Rightarrow> uchar list) \<Rightarrow> (uchar list \<Rightarrow> uchar list \<Rightarrow> uchar list \<Rightarrow> uchar list)
       \<Rightarrow> fd_sequencer_tile \<Rightarrow> long \<Rightarrow> long \<Rightarrow> fd_sequencer_block_hdr \<Rightarrow> fd_sequencer_txn list
       \<Rightarrow> ulong
       \<Rightarrow> (fault + fd_sequencer_tile \<times> (fd_sequencer_block_hdr \<times> fd_sequencer_txn list) option) option" where
  "fd_sequencer_tile_during_housekeeping sha256 ed25519_sign tile now wallclock hdr txns_out
       stack_avail =
     (let elapsed_ns = housekeeping_elapsed_ns tile now
      in if elapsed_ns < block_time_ns (cfg tile) then Some (Inr (tile, None))
         else if stack_avail < housekeeping_stack_frame then Some (Inl StackOverflow)
         else
           (let max_txns = max_txns_per_block (cfg tile);
                max_txns = (if max_txns > 10000 then 10000 else max_txns)
            in case fd_sequencer_build_block sha256 ed25519_sign wallclock tile hdr txns_out max_txns of
                 None \<Rightarrow> None
               | Some (tile1, hdr1, txns1, txn_cnt) \<Rightarrow>
                   (let tile2 = tile1\<lparr> parent_hash :=
                                          fd_memcpy (parent_hash tile1) (sha256 (hdr_bytes hdr1)) 32 \<rparr>
                    in case fd_sequencer_advance_slot tile2 of
                         Inl e \<Rightarrow> Some (Inl e)
                       | Inr (tile3, new_epoch) \<Rightarrow>
                           Some (Inr (tile3\<lparr> block_start_ticks := now \<rparr>,
                                      Some (hdr1, take (unat txn_cnt) txns1))))))"

section \<open>Well-formed memory\<close>

text \<open>
  The byte arrays of the C structures have fixed sizes.  \<open>tile_arrays_wf\<close> and \<open>hdr_wf\<close> say
  that the lists standing for them have these sizes.
\<close>

definition tile_arrays_wf :: "fd_sequencer_tile \<Rightarrow> bool" where
  "tile_arrays_wf tile \<longleftrightarrow>
     length (sequencer_identity tile) = 32 \<and> length (sequencer_privkey tile) = 64 \<and>
     length (parent_hash tile) = 32 \<and> length (frag_buf tile) = unat FD_SEQUENCER_TXN_MTU"

definition hdr_wf :: "fd_sequencer_block_hdr \<Rightarrow> bool" where
  "hdr_wf hdr \<longleftrightarrow>
     length (hdr_parent_hash hdr) = 32 \<and> length (hdr_merkle_root hdr) = 32 \<and>
     length (hdr_sequencer_pubkey hdr) = 32 \<and> length (hdr_signature hdr) = 64 \<and>
     length (hdr_padding hdr) = 4"

text \<open>The bytes staged by the fragment callbacks: the first \<open>frag_buf_sz\<close> bytes of \<open>frag_buf\<close>.\<close>

definition staged :: "fd_sequencer_tile \<Rightarrow> uchar list" where
  "staged tile = take (unat (frag_buf_sz tile)) (frag_buf tile)"

section \<open>Sequences of queue operations and of tile callbacks\<close>

text \<open>
  A queue operation is a push of an entry or a pop into a buffer with given previous
  contents.  \<open>queue_run\<close> applies a sequence of them; \<open>None\<close> means that a pop did not return.
\<close>

datatype queue_op = Push fd_sequencer_txn | Pop fd_sequencer_txn

fun queue_apply :: "fd_sequencer_tile \<Rightarrow> queue_op \<Rightarrow> fd_sequencer_tile option" where
  "queue_apply tile (Push txn) = Some (fst (fd_sequencer_txn_queue_push tile txn))"
| "queue_apply tile (Pop out) = map_option fst (fd_sequencer_txn_queue_pop tile out)"

fun queue_run :: "fd_sequencer_tile \<Rightarrow> queue_op list \<Rightarrow> fd_sequencer_tile option" where
  "queue_run tile [] = Some tile"
| "queue_run tile (qop # qops) =
     (case queue_apply tile qop of None \<Rightarrow> None | Some tile' \<Rightarrow> queue_run tile' qops)"

text \<open>\<open>is_max_fee tile x\<close>: \<open>x\<close> is a stored entry and no stored entry has a larger fee.\<close>

definition is_max_fee :: "fd_sequencer_tile \<Rightarrow> fd_sequencer_txn \<Rightarrow> bool" where
  "is_max_fee tile x \<longleftrightarrow> x \<in> set (stored tile) \<and> (\<forall>y \<in> set (stored tile). fee y \<le> fee x)"

text \<open>\<open>push_all\<close> pushes a list of entries one after another.\<close>

fun push_all :: "fd_sequencer_tile \<Rightarrow> fd_sequencer_txn list \<Rightarrow> fd_sequencer_tile" where
  "push_all tile [] = tile"
| "push_all tile (txn # txns) = push_all (fst (fd_sequencer_txn_queue_push tile txn)) txns"

text \<open>
  The callbacks the tile receives, with the arguments and clock readings of each call.
  \<open>tile_run\<close> applies a sequence of callbacks and collects the headers of the blocks
  produced, oldest first; \<open>None\<close> means that a callback did not return normally.
\<close>

datatype event =
    DuringFrag "uchar list" ulong
  | AfterFrag "ulong option" long
  | Housekeeping long long fd_sequencer_block_hdr "fd_sequencer_txn list" ulong

fun tile_step ::
    "(uchar list \<Rightarrow> uchar list) \<Rightarrow> (uchar list \<Rightarrow> uchar list \<Rightarrow> uchar list \<Rightarrow> uchar list)
       \<Rightarrow> fd_sequencer_tile \<Rightarrow> event \<Rightarrow> (fd_sequencer_tile \<times> fd_sequencer_block_hdr list) option" where
  "tile_step sha256 ed25519_sign tile (DuringFrag chunk sz) =
     Some (fd_sequencer_tile_during_frag tile chunk sz, [])"
| "tile_step sha256 ed25519_sign tile (AfterFrag opt_sig ticks) =
     Some (fd_sequencer_tile_after_frag tile opt_sig ticks, [])"
| "tile_step sha256 ed25519_sign tile (Housekeeping now wallclock hdr txns_out stack_avail) =
     (case fd_sequencer_tile_during_housekeeping sha256 ed25519_sign tile now wallclock hdr txns_out
             stack_avail of
        None \<Rightarrow> None
      | Some (Inl e) \<Rightarrow> None
      | Some (Inr (tile', None)) \<Rightarrow> Some (tile', [])
      | Some (Inr (tile', Some (hdr', txns))) \<Rightarrow> Some (tile', [hdr']))"

fun tile_run ::
    "(uchar list \<Rightarrow> uchar list) \<Rightarrow> (uchar list \<Rightarrow> uchar list \<Rightarrow> uchar list \<Rightarrow> uchar list)
       \<Rightarrow> fd_sequencer_tile \<Rightarrow> event list \<Rightarrow> (fd_sequencer_tile \<times> fd_sequencer_block_hdr list) option" where
  "tile_run sha256 ed25519_sign tile [] = Some (tile, [])"
| "tile_run sha256 ed25519_sign tile (ev # evs) =
     (case tile_step sha256 ed25519_sign tile ev of
        None \<Rightarrow> None
      | Some (tile', hs) \<Rightarrow>
          (case tile_run sha256 ed25519_sign tile' evs of
             None \<Rightarrow> None
           | Some (tile'', hs') \<Rightarrow> Some (tile'', hs @ hs')))"

text \<open>\<open>chained sha256 hs\<close>: each header carries the hash of the full bytes of the one before.\<close>

fun chained :: "(uchar list \<Rightarrow> uchar list) \<Rightarrow> fd_sequencer_block_hdr list \<Rightarrow> bool" where
  "chained sha256 (h1 # h2 # hs) \<longleftrightarrow>
     hdr_parent_hash h2 = sha256 (hdr_bytes h1) \<and> chained sha256 (h2 # hs)"
| "chained sha256 hs \<longleftrightarrow> True"

text \<open>
  A housekeeping call is well formed when the stack memory it finds has the sizes of the
  variables declared there.  It has room on the stack when its two stack variables fit
  what is left of the stack.
\<close>

fun event_stack_ok :: "event \<Rightarrow> bool" where
  "event_stack_ok (Housekeeping now wallclock hdr txns_out stack_avail) \<longleftrightarrow>
     housekeeping_stack_frame \<le> stack_avail"
| "event_stack_ok (DuringFrag chunk sz) \<longleftrightarrow> True"
| "event_stack_ok (AfterFrag opt_sig ticks) \<longleftrightarrow> True"

fun event_wf :: "event \<Rightarrow> bool" where
  "event_wf (Housekeeping now wallclock hdr txns_out stack_avail) \<longleftrightarrow>
     hdr_wf hdr \<and> length txns_out = 10000"
| "event_wf (DuringFrag chunk sz) \<longleftrightarrow> (sz \<le> FD_SEQUENCER_TXN_MTU \<longrightarrow> unat sz \<le> length chunk)"
| "event_wf (AfterFrag opt_sig ticks) \<longleftrightarrow> True"

text \<open>
  \<open>drained txns n n'\<close>: the cells \<open>n\<close> up to \<open>n' - 1\<close> of the output array, that is the
  entries the drain loop wrote while its counter went from \<open>n\<close> to \<open>n'\<close>.
  \<open>fee_descending\<close>: the fees of a list of entries never increase along the list.
\<close>

definition drained :: "fd_sequencer_txn list \<Rightarrow> uint \<Rightarrow> uint \<Rightarrow> fd_sequencer_txn list" where
  "drained txns n n' = drop (unat n) (take (unat n') txns)"

definition fee_descending :: "fd_sequencer_txn list \<Rightarrow> bool" where
  "fee_descending txns \<longleftrightarrow> sorted_wrt (\<lambda>a b. fee b \<le> fee a) txns"

text \<open>
  \<open>tile_ok\<close> collects what the callbacks rely on: a well-formed queue in heap order, arrays
  of the declared sizes and a nonzero epoch length.  \<open>digest_size_ok\<close> says that the hash
  function yields 32-byte digests.
\<close>

definition tile_ok :: "fd_sequencer_tile \<Rightarrow> bool" where
  "tile_ok tile \<longleftrightarrow>
     queue_inv tile \<and> tile_arrays_wf tile \<and> epoch_length_slots (cfg tile) \<noteq> 0"

definition digest_size_ok :: "(uchar list \<Rightarrow> uchar list) \<Rightarrow> bool" where
  "digest_size_ok sha256 \<longleftrightarrow> (\<forall>m. length (sha256 m) = 32)"

section \<open>Example states\<close>

text \<open>
  Concrete values on which the theorems below are instantiated: an entry with a given fee
  and no payload bytes (the queue reads nothing but the fee), a queue of capacity 8 inside
  an otherwise empty tile, a tile with an empty queue of capacity 8 and arrays of the
  declared sizes, and the zero-filled stack array of a housekeeping call.
\<close>

definition txn_of_fee :: "ulong \<Rightarrow> fd_sequencer_txn" where
  "txn_of_fee f = \<lparr> payload = [], payload_sz = 0, fee = f, received_ticks = 0, sig = [] \<rparr>"

definition queue_example :: fd_sequencer_tile where
  "queue_example =
     \<lparr> sequencer_identity = [],
       sequencer_privkey = [],
       current_slot = 0,
       current_epoch = 0,
       block_count = 0,
       txn_count = 0,
       block_start_ticks = 0,
       parent_hash = [],
       tx_queue = replicate 8 (txn_of_fee 0),
       tx_queue_cnt = 0,
       tx_queue_cap = 8,
       fee_total = 0,
       last_metrics_ticks = 0,
       cfg = FD_SEQUENCER_CFG_DEFAULT,
       frag_buf = [],
       frag_buf_sz = 0 \<rparr>"

definition tile_example :: fd_sequencer_tile where
  "tile_example =
     \<lparr> sequencer_identity = replicate 32 1,
       sequencer_privkey = replicate 64 2,
       current_slot = 0,
       current_epoch = 0,
       block_count = 0,
       txn_count = 0,
       block_start_ticks = 0,
       parent_hash = replicate 32 0,
       tx_queue = replicate 8 txn_zero,
       tx_queue_cnt = 0,
       tx_queue_cap = 8,
       fee_total = 0,
       last_metrics_ticks = 0,
       cfg = FD_SEQUENCER_CFG_DEFAULT,
       frag_buf = replicate (unat FD_SEQUENCER_TXN_MTU) 0,
       frag_buf_sz = 0 \<rparr>"

definition txns_out_example :: "fd_sequencer_txn list" where
  "txns_out_example = replicate 10000 txn_zero"

text \<open>
  Stand-ins for the primitives, used only to instantiate theorems: a 32-byte digest made of
  the first bytes of the message, a constant 64-byte signature, and a sequence of callbacks
  with two housekeeping calls one block interval apart and a fragment in between, on a
  thread with 64 MiB of stack left.  \<open>stack_default\<close> is the usual 8 MiB stack of a thread.
\<close>

definition stack_default :: ulong where
  "stack_default = 8 * 2 ^ 20"

definition sha256_example :: "uchar list \<Rightarrow> uchar list" where
  "sha256_example m = take 32 (m @ replicate 32 0)"

definition ed25519_sign_example :: "uchar list \<Rightarrow> uchar list \<Rightarrow> uchar list \<Rightarrow> uchar list" where
  "ed25519_sign_example m pub priv = replicate 64 1"

definition events_example :: "event list" where
  "events_example =
     [Housekeeping 400000000 1000 hdr_zero txns_out_example (64 * 2 ^ 20),
      DuringFrag [1, 2, 3] 3,
      AfterFrag (Some 7000) 5,
      Housekeeping 800000000 2000 hdr_zero txns_out_example (64 * 2 ^ 20)]"

section \<open>The sift-up loop restores the heap order\<close>

lemma is_max_heap_root_max:
  assumes "is_max_heap q n" "i < n"
  shows "fee (q ! i) \<le> fee (q ! 0)"
  using assms(2)
proof (induction i rule: less_induct)
  case (less i)
  show ?case
  proof (cases "i = 0")
    case True then show ?thesis by simp
  next
    case False
    then have "fee (q ! i) \<le> fee (q ! ((i - 1) div 2))"
      using assms(1) less.prems by (simp add: is_max_heap_def)
    moreover have "(i - 1) div 2 < i" "(i - 1) div 2 < n" using False less.prems by arith+
    ultimately show ?thesis using less.IH[of "(i - 1) div 2"] by (meson order_trans)
  qed
qed

lemma heap_except_up_appended:
  assumes "is_max_heap q n"
  shows "heap_except_up (q[n := x]) (Suc n) n"
  using assms unfolding is_max_heap_def heap_except_up_def
  apply (intro conjI ballI impI)
   apply (subgoal_tac "i < n \<and> (i - 1) div 2 < n \<and> (i - 1) div 2 \<noteq> n")
    apply (simp)
   apply (simp) apply arith
  apply simp apply arith
  done

lemma heap_except_up_done:
  assumes "heap_except_up q n k" "k = 0 \<or> fee (q ! k) \<le> fee (q ! ((k - 1) div 2))"
  shows "is_max_heap q n"
  using assms unfolding is_max_heap_def heap_except_up_def
  by (metis atLeastLessThan_iff not_one_le_zero)

lemma heap_except_up_step:
  assumes inv: "heap_except_up q n k" and k: "0 < k" "k < n" "n \<le> length q"
    and lt: "fee (q ! ((k - 1) div 2)) < fee (q ! k)"
  shows "heap_except_up (q[k := q ! ((k - 1) div 2), (k - 1) div 2 := q ! k]) n ((k - 1) div 2)"
proof -
  define p where "p = (k - 1) div 2"
  define q' where "q' = q[k := q ! p, p := q ! k]"
  have pk: "p < k" "p < n" "p < length q" "k < length q" using k by (auto simp: p_def)
  have q'k: "q' ! k = q ! p" and q'p: "q' ! p = q ! k"
    using pk by (auto simp: q'_def)
  have lt': "fee (q ! p) < fee (q ! k)" using lt by (simp add: p_def)
  have q'o: "\<And>j. j \<noteq> k \<Longrightarrow> j \<noteq> p \<Longrightarrow> q' ! j = q ! j" by (simp add: q'_def)
  have A: "\<And>i. i \<in> {1..<n} \<Longrightarrow> i \<noteq> k \<Longrightarrow> fee (q ! i) \<le> fee (q ! ((i - 1) div 2))"
    using inv by (simp add: heap_except_up_def)
  have B: "\<And>i. i \<in> {1..<n} \<Longrightarrow> (i - 1) div 2 = k \<Longrightarrow> fee (q ! i) \<le> fee (q ! p)"
    using inv k by (simp add: heap_except_up_def p_def)
  have 1: "fee (q' ! i) \<le> fee (q' ! ((i - 1) div 2))" if i: "i \<in> {1..<n}" "i \<noteq> p" for i
  proof (cases "i = k")
    case True
    then have "(i - 1) div 2 = p" by (simp add: p_def)
    then show ?thesis using True q'k q'p lt' by simp
  next
    case False
    note ik = this
    show ?thesis
    proof (cases "(i - 1) div 2 = k")
      case True
      then have "fee (q ! i) \<le> fee (q ! p)" using B i by simp
      then show ?thesis using True q'k q'o[of i] ik i by simp
    next
      case False
      note pik = this
      show ?thesis
      proof (cases "(i - 1) div 2 = p")
        case True
        have "fee (q ! i) \<le> fee (q ! p)" using A[OF i(1) ik] True by simp
        then show ?thesis using True q'p q'o[of i] ik i lt' by simp
      next
        case False
        then show ?thesis using A[OF i(1) ik] q'o[of i] q'o[of "(i - 1) div 2"] ik i pik by simp
      qed
    qed
  qed
  have 2: "fee (q' ! i) \<le> fee (q' ! ((p - 1) div 2))"
    if i: "i \<in> {1..<n}" "0 < p" "(i - 1) div 2 = p" for i
  proof -
    have pp: "(p - 1) div 2 < p" using i by arith
    then have e: "q' ! ((p - 1) div 2) = q ! ((p - 1) div 2)" using pk by (intro q'o) auto
    have pin: "p \<in> {1..<n}" "p \<noteq> k" using i pk by auto
    have ple: "fee (q ! p) \<le> fee (q ! ((p - 1) div 2))" using A[OF pin] .
    show ?thesis
    proof (cases "i = k")
      case True
      then show ?thesis using q'k e ple by simp
    next
      case False
      then have "i \<noteq> p" using i by auto
      then have "q' ! i = q ! i" using False q'o by simp
      moreover have "fee (q ! i) \<le> fee (q ! p)" using A[OF i(1) False] i by simp
      ultimately show ?thesis using e ple by simp
    qed
  qed
  show ?thesis
    unfolding heap_except_up_def p_def[symmetric] q'_def[symmetric]
    using 1 2 by blast
qed


lemma unat_parent: "idx \<noteq> 0 \<Longrightarrow> unat ((idx - 1) div 2 :: ulong) = (unat idx - 1) div 2"
  by (simp add: unat_div unat_minus_one)

lemma push_sift_up_heap:
  "heap_except_up q n (unat idx) \<Longrightarrow> unat idx < n \<Longrightarrow> n \<le> length q
     \<Longrightarrow> is_max_heap (push_sift_up q idx) n"
proof (induction q idx rule: push_sift_up.induct)
  case (1 q idx)
  show ?case
  proof (cases "idx = 0")
    case True
    then have "push_sift_up q idx = q" by (subst push_sift_up.simps) simp
    then show ?thesis using "1.prems"(1) heap_except_up_done[of q n 0] True by simp
  next
    case False
    then have pos: "0 < idx" "0 < unat idx" by (simp_all add: word_greater_zero_iff unat_gt_0)
    define p where "p = (idx - 1) div 2"
    have up: "unat p = (unat idx - 1) div 2" using False by (simp add: p_def unat_parent)
    show ?thesis
    proof (cases "fee (q ! unat p) \<ge> fee (q ! unat idx)")
      case True
      then have "push_sift_up q idx = q"
        using pos by (simp add: push_sift_up.simps[of q idx] p_def)
      then show ?thesis using "1.prems"(1) True heap_except_up_done[of q n "unat idx"] up by simp
    next
      case False
      then have lt: "fee (q ! ((unat idx - 1) div 2)) < fee (q ! unat idx)" using up by simp
      have eq: "push_sift_up q idx = push_sift_up (q[unat idx := q ! unat p, unat p := q ! unat idx]) p"
        using pos False by (subst push_sift_up.simps) (simp add: p_def)
      have "heap_except_up (q[unat idx := q ! unat p, unat p := q ! unat idx]) n (unat p)"
        using heap_except_up_step[OF "1.prems"(1) pos(2) "1.prems"(2,3) lt] up by simp
      moreover have "unat p < n" using up "1.prems"(2) by arith
      ultimately have "is_max_heap (push_sift_up (q[unat idx := q ! unat p, unat p := q ! unat idx]) p) n"
        using "1.IH"[OF pos(1)] False "1.prems"(3) by (simp add: p_def)
      then show ?thesis using eq by simp
    qed
  qed
qed

lemma mset_take_swap:
  assumes "i < n" "j < n" "n \<le> length q"
  shows "mset (take n (q[i := q ! j, j := q ! i])) = mset (take n q)"
proof -
  have "take n (q[i := q ! j, j := q ! i]) = (take n q)[i := take n q ! j, j := take n q ! i]"
    using assms by (simp add: take_update_swap)
  moreover have "mset ((take n q)[i := take n q ! j, j := take n q ! i]) = mset (take n q)"
    using assms by (intro mset_swap) simp_all
  ultimately show ?thesis by simp
qed

lemma push_sift_up_mset:
  "unat idx < n \<Longrightarrow> n \<le> length q
     \<Longrightarrow> mset (take n (push_sift_up q idx)) = mset (take n q) \<and>
         length (push_sift_up q idx) = length q"
proof (induction q idx rule: push_sift_up.induct)
  case (1 q idx)
  show ?case
  proof (cases "0 < idx \<and> \<not> fee (q ! unat ((idx - 1) div 2)) \<ge> fee (q ! unat idx)")
    case False
    then have "push_sift_up q idx = q" by (subst push_sift_up.simps) auto
    then show ?thesis by simp
  next
    case True
    define p where "p = (idx - 1) div 2"
    have nz: "idx \<noteq> 0" using True by auto
    have up: "unat p = (unat idx - 1) div 2" using nz by (simp add: p_def unat_parent)
    have pn: "unat p < n" using up "1.prems"(1) by arith
    have eq: "push_sift_up q idx = push_sift_up (q[unat idx := q ! unat p, unat p := q ! unat idx]) p"
      using True by (subst push_sift_up.simps) (simp add: p_def)
    have "mset (take n (push_sift_up (q[unat idx := q ! unat p, unat p := q ! unat idx]) p)) =
            mset (take n (q[unat idx := q ! unat p, unat p := q ! unat idx])) \<and>
          length (push_sift_up (q[unat idx := q ! unat p, unat p := q ! unat idx]) p) =
            length (q[unat idx := q ! unat p, unat p := q ! unat idx])"
      using "1.IH" True pn "1.prems"(2) by (simp add: p_def)
    then show ?thesis
      using eq mset_take_swap[OF "1.prems"(1) pn "1.prems"(2)] by simp
  qed
qed


section \<open>The sift-down loop restores the heap order\<close>

lemma parent_eq_iff:
  "0 < (i::nat) \<Longrightarrow> (i - 1) div 2 = k \<longleftrightarrow> i = 2 * k + 1 \<or> i = 2 * k + 2"
  by arith

lemma heap_except_down_done:
  assumes inv: "heap_except_down q n k"
    and l: "2 * k + 1 < n \<Longrightarrow> fee (q ! (2 * k + 1)) \<le> fee (q ! k)"
    and r: "2 * k + 2 < n \<Longrightarrow> fee (q ! (2 * k + 2)) \<le> fee (q ! k)"
  shows "is_max_heap q n"
  unfolding is_max_heap_def
proof
  fix i assume i: "i \<in> {1..<n}"
  show "fee (q ! i) \<le> fee (q ! ((i - 1) div 2))"
  proof (cases "(i - 1) div 2 = k")
    case False
    then show ?thesis using inv i by (simp add: heap_except_down_def)
  next
    case True
    then have "i = 2 * k + 1 \<or> i = 2 * k + 2" using i parent_eq_iff[of i k] by simp
    then show ?thesis using l r i True by auto
  qed
qed

lemma heap_except_down_step:
  assumes inv: "heap_except_down q n k"
    and b: "b = 2 * k + 1 \<or> b = 2 * k + 2" "b < n" "n \<le> length q"
    and lt: "fee (q ! k) < fee (q ! b)"
    and l: "2 * k + 1 < n \<Longrightarrow> fee (q ! (2 * k + 1)) \<le> fee (q ! b)"
    and r: "2 * k + 2 < n \<Longrightarrow> fee (q ! (2 * k + 2)) \<le> fee (q ! b)"
  shows "heap_except_down (q[k := q ! b, b := q ! k]) n b"
proof -
  define q' where "q' = q[k := q ! b, b := q ! k]"
  have kb: "k < b" "k < length q" "b < length q" "0 < b" "(b - 1) div 2 = k" using b by auto
  have q'k: "q' ! k = q ! b" and q'b: "q' ! b = q ! k" using kb by (auto simp: q'_def)
  have q'o: "\<And>j. j \<noteq> k \<Longrightarrow> j \<noteq> b \<Longrightarrow> q' ! j = q ! j" by (simp add: q'_def)
  have A: "\<And>i. i \<in> {1..<n} \<Longrightarrow> (i - 1) div 2 \<noteq> k \<Longrightarrow> fee (q ! i) \<le> fee (q ! ((i - 1) div 2))"
    using inv by (simp add: heap_except_down_def)
  have B: "\<And>i. i \<in> {1..<n} \<Longrightarrow> 0 < k \<Longrightarrow> (i - 1) div 2 = k \<Longrightarrow> fee (q ! i) \<le> fee (q ! ((k - 1) div 2))"
    using inv by (simp add: heap_except_down_def)
  have C: "fee (q ! i) \<le> fee (q ! b)" if "i \<in> {1..<n}" "(i - 1) div 2 = k" for i
  proof -
    have "i = 2 * k + 1 \<or> i = 2 * k + 2" using that parent_eq_iff[of i k] by simp
    then show ?thesis using l r that by auto
  qed
  have 1: "fee (q' ! i) \<le> fee (q' ! ((i - 1) div 2))" if i: "i \<in> {1..<n}" "(i - 1) div 2 \<noteq> b" for i
  proof (cases "i = b")
    case True
    then show ?thesis using q'k q'b kb lt by simp
  next
    case ib: False
    show ?thesis
    proof (cases "i = k")
      case True
      then have k0: "0 < k" using i by simp
      then have pk: "(k - 1) div 2 < k" by arith
      then have "q' ! ((k - 1) div 2) = q ! ((k - 1) div 2)" using kb by (intro q'o) auto
      moreover have "fee (q ! b) \<le> fee (q ! ((k - 1) div 2))" using B[of b] b kb k0 by simp
      ultimately show ?thesis using True q'k by simp
    next
      case ik: False
      show ?thesis
      proof (cases "(i - 1) div 2 = k")
        case True
        then show ?thesis using C[OF i(1) True] q'o[OF ik ib] q'k by simp
      next
        case False
        then show ?thesis using A[OF i(1) False] q'o[OF ik ib] q'o[OF False i(2)] by simp
      qed
    qed
  qed
  have 2: "fee (q' ! i) \<le> fee (q' ! ((b - 1) div 2))" if i: "i \<in> {1..<n}" "(i - 1) div 2 = b" for i
  proof -
    have "i \<noteq> k" "i \<noteq> b" using i kb by auto
    then have "q' ! i = q ! i" by (rule q'o)
    moreover have "fee (q ! i) \<le> fee (q ! b)" using A[OF i(1)] i kb by simp
    ultimately show ?thesis using kb q'k by simp
  qed
  show ?thesis
    unfolding heap_except_down_def q'_def[symmetric] using 1 2 by blast
qed

lemma unat_children:
  assumes "unat (idx :: ulong) < 2 ^ 63 - 1"
  shows "unat (2 * idx + 1) = 2 * unat idx + 1" "unat (2 * idx + 2) = 2 * unat idx + 2"
proof -
  have "2 * unat idx + 2 < 2 ^ 64" using assms by simp
  then show "unat (2 * idx + 1) = 2 * unat idx + 1" "unat (2 * idx + 2) = 2 * unat idx + 2"
    by (simp_all add: unat_word_ariths)
qed


lemma pop_best_cases:
  assumes k: "unat idx < unat cnt" and c: "unat cnt < 2 ^ 63"
  shows "(pop_best q cnt idx = idx \<and>
            (2 * unat idx + 1 < unat cnt \<longrightarrow> fee (q ! (2 * unat idx + 1)) \<le> fee (q ! unat idx)) \<and>
            (2 * unat idx + 2 < unat cnt \<longrightarrow> fee (q ! (2 * unat idx + 2)) \<le> fee (q ! unat idx))) \<or>
         (pop_best q cnt idx \<noteq> idx \<and>
            (unat (pop_best q cnt idx) = 2 * unat idx + 1 \<or>
             unat (pop_best q cnt idx) = 2 * unat idx + 2) \<and>
            unat (pop_best q cnt idx) < unat cnt \<and>
            fee (q ! unat idx) < fee (q ! unat (pop_best q cnt idx)) \<and>
            (2 * unat idx + 1 < unat cnt \<longrightarrow>
               fee (q ! (2 * unat idx + 1)) \<le> fee (q ! unat (pop_best q cnt idx))) \<and>
            (2 * unat idx + 2 < unat cnt \<longrightarrow>
               fee (q ! (2 * unat idx + 2)) \<le> fee (q ! unat (pop_best q cnt idx))))"
proof -
  define l where "l = 2 * idx + 1"
  define r where "r = 2 * idx + 2"
  define b1 where "b1 = (if l < cnt \<and> fee (q ! unat l) > fee (q ! unat idx) then l else idx)"
  have small: "unat idx < 2 ^ 63 - 1" using k c by simp
  have ul: "unat l = 2 * unat idx + 1" and ur: "unat r = 2 * unat idx + 2"
    using unat_children[OF small] by (simp_all add: l_def r_def)
  have "unat l \<noteq> unat idx" "unat r \<noteq> unat idx" using ul ur by simp_all
  then have ne: "l \<noteq> idx" "r \<noteq> idx" by auto
  have lc: "l < cnt \<longleftrightarrow> 2 * unat idx + 1 < unat cnt"
    and rc: "r < cnt \<longleftrightarrow> 2 * unat idx + 2 < unat cnt"
    using ul ur by (simp_all add: word_less_nat_alt)
  have best: "pop_best q cnt idx = (if r < cnt \<and> fee (q ! unat r) > fee (q ! unat b1) then r else b1)"
    unfolding pop_best_def Let_def l_def r_def b1_def by (rule refl)
  show ?thesis
  proof (cases "l < cnt \<and> fee (q ! unat l) > fee (q ! unat idx)")
    case True
    note L = this
    have b1: "b1 = l" by (simp add: b1_def L)
    show ?thesis
    proof (cases "r < cnt \<and> fee (q ! unat r) > fee (q ! unat l)")
      case True
      note R = this
      have "pop_best q cnt idx = r" unfolding best b1 by (simp add: R)
      moreover have "fee (q ! unat idx) < fee (q ! unat r)" using True L by auto
      moreover have "fee (q ! unat l) \<le> fee (q ! unat r)" using True by auto
      ultimately show ?thesis using ne True ul ur rc by simp
    next
      case False
      note R = this
      have "pop_best q cnt idx = l" unfolding best b1 by (simp add: R)
      moreover have "r < cnt \<longrightarrow> fee (q ! unat r) \<le> fee (q ! unat l)" using False by auto
      ultimately show ?thesis using ne L ul ur lc rc by simp
    qed
  next
    case False
    note L = this
    have b1: "b1 = idx" by (simp add: b1_def L)
    have Ll: "l < cnt \<longrightarrow> fee (q ! unat l) \<le> fee (q ! unat idx)" using L by auto
    show ?thesis
    proof (cases "r < cnt \<and> fee (q ! unat r) > fee (q ! unat idx)")
      case True
      note R = this
      have "pop_best q cnt idx = r" unfolding best b1 by (simp add: R)
      moreover have "l < cnt \<longrightarrow> fee (q ! unat l) \<le> fee (q ! unat r)" using Ll True by auto
      ultimately show ?thesis using ne True ul ur lc rc by simp
    next
      case False
      note R = this
      have "pop_best q cnt idx = idx" unfolding best b1 by (simp add: R)
      moreover have "r < cnt \<longrightarrow> fee (q ! unat r) \<le> fee (q ! unat idx)" using False by auto
      ultimately show ?thesis using Ll ul ur lc rc by simp
    qed
  qed
qed


lemma pop_sift_down_heap:
  assumes "heap_except_down q (unat cnt) (unat idx)" "unat idx < unat cnt"
    "unat cnt \<le> length q" "unat cnt < 2 ^ 63"
  shows "\<exists>q'. pop_sift_down q cnt idx = Some q' \<and> is_max_heap q' (unat cnt) \<and>
              mset (take (unat cnt) q') = mset (take (unat cnt) q) \<and> length q' = length q"
  using assms
proof (induction "unat cnt - unat idx" arbitrary: q idx rule: less_induct)
  case less
  define b where "b = pop_best q cnt idx"
  define q2 where "q2 = q[unat idx := q ! unat b, unat b := q ! unat idx]"
  note cases = pop_best_cases[OF less.prems(2,4), of q]
  show ?case
  proof (cases "pop_best q cnt idx = idx")
    case True
    then have stop: "pop_best q cnt idx = idx"
      and l: "2 * unat idx + 1 < unat cnt \<longrightarrow> fee (q ! (2 * unat idx + 1)) \<le> fee (q ! unat idx)"
      and r: "2 * unat idx + 2 < unat cnt \<longrightarrow> fee (q ! (2 * unat idx + 2)) \<le> fee (q ! unat idx)"
      using cases by blast+
    have "pop_sift_down q cnt idx = Some q" using stop by (subst pop_sift_down.simps) simp
    moreover have "is_max_heap q (unat cnt)"
      using heap_except_down_done[OF less.prems(1)] l r by simp
    ultimately show ?thesis by simp
  next
    case False
    then have go: "pop_best q cnt idx \<noteq> idx"
      and bb: "unat (pop_best q cnt idx) = 2 * unat idx + 1 \<or> unat (pop_best q cnt idx) = 2 * unat idx + 2"
      and bn: "unat (pop_best q cnt idx) < unat cnt"
      and lt: "fee (q ! unat idx) < fee (q ! unat (pop_best q cnt idx))"
      and l: "2 * unat idx + 1 < unat cnt \<longrightarrow> fee (q ! (2 * unat idx + 1)) \<le> fee (q ! unat (pop_best q cnt idx))"
      and r: "2 * unat idx + 2 < unat cnt \<longrightarrow> fee (q ! (2 * unat idx + 2)) \<le> fee (q ! unat (pop_best q cnt idx))"
      using cases by blast+
    have eq: "pop_sift_down q cnt idx = pop_sift_down q2 cnt b"
      using go by (subst pop_sift_down.simps) (simp add: b_def q2_def)
    have inv2: "heap_except_down q2 (unat cnt) (unat b)"
      unfolding q2_def b_def
      using heap_except_down_step[OF less.prems(1) bb bn less.prems(3) lt] l r by simp
    have dec: "unat cnt - unat b < unat cnt - unat idx" using bb bn by (auto simp: b_def)
    have len2: "unat cnt \<le> length q2" using less.prems(3) by (simp add: q2_def)
    obtain q' where q': "pop_sift_down q2 cnt b = Some q'" "is_max_heap q' (unat cnt)"
        "mset (take (unat cnt) q') = mset (take (unat cnt) q2)" "length q' = length q2"
      using less.hyps[OF dec inv2 _ len2 less.prems(4)] bn by (auto simp: b_def)
    have "mset (take (unat cnt) q2) = mset (take (unat cnt) q)"
      unfolding q2_def b_def
      using mset_take_swap[OF less.prems(2) bn less.prems(3)] by simp
    then show ?thesis using eq q' by (simp add: q2_def)
  qed
qed


section \<open>Push, pop and peek keep the queue invariant\<close>

lemma push_full:
  "tx_queue_cap tile \<le> tx_queue_cnt tile \<Longrightarrow> fd_sequencer_txn_queue_push tile txn = (tile, 0)"
  by (simp add: fd_sequencer_txn_queue_push_def)

lemma push_room:
  assumes inv: "queue_inv tile" and room: "tx_queue_cnt tile < tx_queue_cap tile"
  shows "\<exists>tile'. fd_sequencer_txn_queue_push tile txn = (tile', 1) \<and> queue_inv tile' \<and>
           tx_queue_cap tile' = tx_queue_cap tile \<and>
           tx_queue_cnt tile' = tx_queue_cnt tile + 1 \<and>
           unat (tx_queue_cnt tile') = Suc (unat (tx_queue_cnt tile)) \<and>
           length (tx_queue tile') = length (tx_queue tile) \<and>
           mset (stored tile') = add_mset txn (mset (stored tile))"
proof -
  define n where "n = unat (tx_queue_cnt tile)"
  define q where "q = tx_queue tile"
  define q1 where "q1 = q[n := txn]"
  define q2 where "q2 = push_sift_up q1 (tx_queue_cnt tile)"
  define tile' where "tile' = tile\<lparr> tx_queue := q2, tx_queue_cnt := tx_queue_cnt tile + 1 \<rparr>"
  have wf: "unat (tx_queue_cap tile) \<le> length q" "unat (tx_queue_cap tile) < 2 ^ 63"
    and heap: "is_max_heap q n"
    using inv by (simp_all add: queue_inv_def queue_wf_def q_def n_def)
  have ncap: "n < unat (tx_queue_cap tile)" using room by (simp add: n_def word_less_nat_alt)
  then have nlen: "n < length q" using wf by simp
  have "unat (tx_queue_cnt tile) + unat (1 :: ulong) < 2 ^ LENGTH(64)"
    using ncap wf(2) by (simp add: n_def)
  then have suc: "unat (tx_queue_cnt tile + 1) = Suc n"
    using unat_add_lem[of "tx_queue_cnt tile" 1] by (simp add: n_def)
  have res: "fd_sequencer_txn_queue_push tile txn = (tile', 1)"
    using room by (simp add: fd_sequencer_txn_queue_push_def tile'_def q2_def q1_def q_def n_def)
  have "heap_except_up q1 (Suc n) n" unfolding q1_def by (rule heap_except_up_appended[OF heap])
  then have heap2: "is_max_heap q2 (Suc n)"
    unfolding q2_def using nlen by (intro push_sift_up_heap) (simp_all add: n_def q1_def)
  have ms: "mset (take (Suc n) q2) = mset (take (Suc n) q1)" and len: "length q2 = length q1"
    unfolding q2_def using push_sift_up_mset[of "tx_queue_cnt tile" "Suc n" q1] nlen
    by (simp_all add: n_def q1_def)
  have "take (Suc n) q1 = take n q @ [txn]"
    using nlen by (simp add: q1_def take_Suc_conv_app_nth)
  then have ms2: "mset (take (Suc n) q2) = add_mset txn (mset (take n q))" using ms by simp
  have cnt_le: "tx_queue_cnt tile + 1 \<le> tx_queue_cap tile"
    using ncap suc by (simp add: word_le_nat_alt)
  have "queue_inv tile'"
    using wf heap2 len suc cnt_le
    by (simp add: queue_inv_def queue_wf_def tile'_def q1_def)
  then show ?thesis
    using res suc ms2 len
    by (simp add: tile'_def stored_def q_def n_def q1_def)
qed


lemma push_frame:
  "\<exists>q' c r. fd_sequencer_txn_queue_push tile txn = (tile\<lparr> tx_queue := q', tx_queue_cnt := c \<rparr>, r)"
proof (cases "tx_queue_cap tile \<le> tx_queue_cnt tile")
  case True
  then have "fd_sequencer_txn_queue_push tile txn =
      (tile\<lparr> tx_queue := tx_queue tile, tx_queue_cnt := tx_queue_cnt tile \<rparr>, 0)"
    by (simp add: fd_sequencer_txn_queue_push_def)
  then show ?thesis by blast
next
  case False
  then have "fd_sequencer_txn_queue_push tile txn =
      (tile\<lparr> tx_queue := push_sift_up ((tx_queue tile)[unat (tx_queue_cnt tile) := txn])
                                        (tx_queue_cnt tile),
             tx_queue_cnt := tx_queue_cnt tile + 1 \<rparr>, 1)"
    by (simp add: fd_sequencer_txn_queue_push_def)
  then show ?thesis by blast
qed

lemma pop_empty:
  "tx_queue_cnt tile = 0 \<Longrightarrow> fd_sequencer_txn_queue_pop tile out = Some (tile, out, 0)"
  by (simp add: fd_sequencer_txn_queue_pop_def)

lemma mset_take_replace_root:
  assumes "0 < m" "m < length q"
  shows "mset (take m (q[0 := q ! m])) = mset (take (Suc m) q) - {# q ! 0 #}"
proof -
  have a: "take m (q[0 := q ! m]) = (take m q)[0 := q ! m]" by (simp add: take_update_swap)
  have b: "mset ((take m q)[0 := q ! m]) = add_mset (q ! m) (mset (take m q) - {# q ! 0 #})"
    using assms by (simp add: mset_update)
  have c: "mset (take (Suc m) q) = add_mset (q ! m) (mset (take m q))"
    using assms by (simp add: take_Suc_conv_app_nth)
  have "q ! 0 \<in> set (take m q)" using assms by (metis in_set_conv_nth length_take min.absorb2 less_imp_le nth_take)
  then have "q ! 0 \<in># mset (take m q)" by simp
  then show ?thesis using a b c by simp
qed

lemma pop_nonempty:
  assumes inv: "queue_inv tile" and ne: "tx_queue_cnt tile \<noteq> 0"
  shows "\<exists>q'. fd_sequencer_txn_queue_pop tile out =
                 Some (tile\<lparr> tx_queue := q', tx_queue_cnt := tx_queue_cnt tile - 1 \<rparr>,
                       tx_queue tile ! 0, 1) \<and>
              queue_inv (tile\<lparr> tx_queue := q', tx_queue_cnt := tx_queue_cnt tile - 1 \<rparr>) \<and>
              unat (tx_queue_cnt tile - 1) = unat (tx_queue_cnt tile) - 1 \<and>
              length q' = length (tx_queue tile) \<and>
              mset (take (unat (tx_queue_cnt tile - 1)) q') = mset (stored tile) - {# tx_queue tile ! 0 #}"
proof -
  define n where "n = unat (tx_queue_cnt tile)"
  define q where "q = tx_queue tile"
  define c where "c = tx_queue_cnt tile - 1"
  have wf: "n \<le> unat (tx_queue_cap tile)" "unat (tx_queue_cap tile) \<le> length q"
      "unat (tx_queue_cap tile) < 2 ^ 63"
    and heap: "is_max_heap q n"
    using inv by (simp_all add: queue_inv_def queue_wf_def q_def n_def word_le_nat_alt)
  have npos: "0 < n" using ne by (simp add: n_def unat_gt_0)
  have uc: "unat c = n - 1" using ne by (simp add: c_def n_def unat_minus_one)
  have cle: "c \<le> tx_queue_cap tile" using wf(1) uc by (simp add: word_le_nat_alt)
  show ?thesis
  proof (cases "c > 0")
    case False
    then have c0: "c = 0" by (simp add: word_greater_zero_iff)
    then have n1: "n = 1" using uc npos by simp
    have res: "fd_sequencer_txn_queue_pop tile out =
                 Some (tile\<lparr> tx_queue := q, tx_queue_cnt := c \<rparr>, q ! 0, 1)"
      using ne c0 by (simp add: fd_sequencer_txn_queue_pop_def c_def[symmetric] q_def)
    have "queue_inv (tile\<lparr> tx_queue := q, tx_queue_cnt := c \<rparr>)"
      using wf c0 by (simp add: queue_inv_def queue_wf_def is_max_heap_def)
    moreover have "mset (take (unat c) q) = mset (take n q) - {# q ! 0 #}"
      using c0 n1 wf by (cases q) simp_all
    ultimately show ?thesis
      using res uc unfolding c_def[symmetric] q_def[symmetric] stored_def n_def[symmetric]
      by (intro exI[of _ q]) simp
  next
    case True
    then have m: "0 < n - 1" using uc by (simp add: word_greater_zero_iff unat_gt_0[symmetric])
    define q1 where "q1 = q[0 := q ! unat c]"
    have "heap_except_down q1 (n - 1) 0"
      unfolding heap_except_down_def
    proof (intro conjI ballI impI)
      fix i assume i: "i \<in> {1..<n - 1}" "(i - 1) div 2 \<noteq> 0"
      then have "q1 ! i = q ! i" "q1 ! ((i - 1) div 2) = q ! ((i - 1) div 2)" by (simp_all add: q1_def)
      moreover have "i \<in> {1..<n}" using i by auto
      then have "fee (q ! i) \<le> fee (q ! ((i - 1) div 2))" using heap by (simp add: is_max_heap_def)
      ultimately show "fee (q1 ! i) \<le> fee (q1 ! ((i - 1) div 2))" by simp
    qed simp
    then have "heap_except_down q1 (unat c) (unat (0 :: ulong))" using uc by simp
    moreover have "unat (0 :: ulong) < unat c" using uc m by simp
    moreover have "unat c \<le> length q1" using uc wf by (simp add: q1_def)
    moreover have "unat c < 2 ^ 63" using uc wf by simp
    ultimately obtain q' where q': "pop_sift_down q1 c 0 = Some q'" "is_max_heap q' (unat c)"
        "mset (take (unat c) q') = mset (take (unat c) q1)" "length q' = length q1"
      using pop_sift_down_heap[of q1 c 0] by blast
    have res: "fd_sequencer_txn_queue_pop tile out =
                 Some (tile\<lparr> tx_queue := q', tx_queue_cnt := c \<rparr>, q ! 0, 1)"
      using ne True q'(1)
      by (simp add: fd_sequencer_txn_queue_pop_def c_def[symmetric] q_def[symmetric] q1_def[symmetric])
    have "queue_inv (tile\<lparr> tx_queue := q', tx_queue_cnt := c \<rparr>)"
      using wf cle q'(2,4) by (simp add: queue_inv_def queue_wf_def q1_def)
    moreover have "mset (take (unat c) q1) = mset (take n q) - {# q ! 0 #}"
      using mset_take_replace_root[of "n - 1" q] m wf uc npos by (simp add: q1_def)
    ultimately show ?thesis
      using res uc q'(3,4) unfolding c_def[symmetric] q_def[symmetric] stored_def n_def[symmetric]
      by (intro exI[of _ q']) (simp add: q1_def)
  qed
qed


lemma peek_max:
  assumes inv: "queue_inv tile" and ne: "tx_queue_cnt tile \<noteq> 0"
  shows "fd_sequencer_txn_queue_peek tile = Some (tx_queue tile ! 0) \<and>
         tx_queue tile ! 0 \<in> set (stored tile) \<and>
         (\<forall>y \<in> set (stored tile). fee y \<le> fee (tx_queue tile ! 0))"
proof -
  define n where "n = unat (tx_queue_cnt tile)"
  define q where "q = tx_queue tile"
  have npos: "0 < n" using ne by (simp add: n_def unat_gt_0)
  have len: "n \<le> length q" and heap: "is_max_heap q n"
    using inv by (simp_all add: queue_inv_def queue_wf_def n_def q_def word_le_nat_alt)
  have lt: "length (take n q) = n" using len by simp
  have "take n q ! 0 \<in> set (take n q)" using npos lt by (intro nth_mem) simp
  then have root: "q ! 0 \<in> set (take n q)" using npos by simp
  have le: "fee y \<le> fee (q ! 0)" if y: "y \<in> set (take n q)" for y
  proof -
    obtain i where i: "i < n" "y = q ! i"
      using y lt by (auto simp: in_set_conv_nth)
    then show ?thesis using is_max_heap_root_max[OF heap] by simp
  qed
  have "fd_sequencer_txn_queue_peek tile = Some (q ! 0)"
    using ne by (simp add: fd_sequencer_txn_queue_peek_def q_def)
  then show ?thesis
    using root le by (simp add: stored_def n_def q_def)
qed


section \<open>Capacity and emptiness\<close>

text \<open>
  Claim C7.  A push into a queue whose count equals its capacity returns 0 and leaves the
  tile, hence the count and the stored entries, unchanged; a pop from a queue whose count
  is 0 returns 0 and leaves the tile and the output buffer unchanged.
\<close>

theorem push_full_pop_empty_rejected:
  "(tx_queue_cnt tile_full = tx_queue_cap tile_full \<longrightarrow>
      fd_sequencer_txn_queue_push tile_full txn = (tile_full, 0) \<and>
      tx_queue_cnt (fst (fd_sequencer_txn_queue_push tile_full txn)) = tx_queue_cap tile_full \<and>
      stored (fst (fd_sequencer_txn_queue_push tile_full txn)) = stored tile_full) \<and>
   (tx_queue_cnt tile_empty = 0 \<longrightarrow>
      fd_sequencer_txn_queue_pop tile_empty out = Some (tile_empty, out, 0))"
  by (simp add: push_full pop_empty)

theorem push_full_pop_empty_rejected_witness:
  "tx_queue_cnt (queue_example\<lparr> tx_queue_cnt := 8 \<rparr>) = tx_queue_cap (queue_example\<lparr> tx_queue_cnt := 8 \<rparr>) \<and>
   fd_sequencer_txn_queue_push (queue_example\<lparr> tx_queue_cnt := 8 \<rparr>) (txn_of_fee 7) =
     (queue_example\<lparr> tx_queue_cnt := 8 \<rparr>, 0) \<and>
   tx_queue_cnt queue_example = 0 \<and>
   fd_sequencer_txn_queue_pop queue_example (txn_of_fee 7) = Some (queue_example, txn_of_fee 7, 0)"
  using push_full_pop_empty_rejected[of "queue_example\<lparr> tx_queue_cnt := 8 \<rparr>" "txn_of_fee 7"
          queue_example "txn_of_fee 7"]
  by (simp add: queue_example_def)

section \<open>Slot and epoch advancement\<close>

text \<open>
  Claim C5.  With a nonzero epoch length, a call of the slot-advance operation returns, the
  new slot is the old slot plus 1 (in 64-bit arithmetic, and as a number unless the old
  slot is the largest 64-bit value), and the epoch grows by 1 and the flag is 1 exactly
  when the new slot is a nonzero multiple of the epoch length; otherwise the epoch is
  unchanged and the flag is 0.
\<close>

theorem advance_slot_spec:
  assumes "epoch_length_slots (cfg tile) \<noteq> 0"
  shows "\<exists>tile' flag.
           fd_sequencer_advance_slot tile = Inr (tile', flag) \<and>
           current_slot tile' = current_slot tile + 1 \<and>
           (unat (current_slot tile) < 2 ^ 64 - 1 \<longrightarrow>
              unat (current_slot tile') = unat (current_slot tile) + 1) \<and>
           current_epoch tile' =
             (if current_slot tile' \<noteq> 0 \<and>
                 unat (epoch_length_slots (cfg tile)) dvd unat (current_slot tile')
              then current_epoch tile + 1 else current_epoch tile) \<and>
           flag =
             (if current_slot tile' \<noteq> 0 \<and>
                 unat (epoch_length_slots (cfg tile)) dvd unat (current_slot tile')
              then 1 else 0)"
proof -
  define s where "s = current_slot tile + 1"
  define len where "len = epoch_length_slots (cfg tile)"
  have dvd: "s mod len = 0 \<longleftrightarrow> unat len dvd unat s"
    by (metis unat_mod unat_eq_0 dvd_eq_mod_eq_0)
  have pos: "0 < s \<longleftrightarrow> s \<noteq> 0" by (simp add: word_greater_zero_iff)
  have nat: "unat (current_slot tile) < 2 ^ 64 - 1 \<longrightarrow> unat s = unat (current_slot tile) + 1"
  proof
    assume "unat (current_slot tile) < 2 ^ 64 - 1"
    then have "unat (current_slot tile) + unat (1 :: ulong) < 2 ^ LENGTH(64)" by simp
    then show "unat s = unat (current_slot tile) + 1"
      using unat_add_lem[of "current_slot tile" 1] by (simp add: s_def)
  qed
  define t1 where "t1 = tile\<lparr> current_slot := s, block_count := block_count tile + 1 \<rparr>"
  show ?thesis
  proof (cases "s \<noteq> 0 \<and> unat len dvd unat s")
    case True
    then have "fd_sequencer_advance_slot tile = Inr (t1\<lparr> current_epoch := current_epoch tile + 1 \<rparr>, 1)"
      using assms dvd pos
      by (simp add: fd_sequencer_advance_slot_def Let_def s_def[symmetric] len_def[symmetric] t1_def)
    then show ?thesis
      using True nat by (simp add: t1_def s_def[symmetric] len_def[symmetric])
  next
    case False
    then have "fd_sequencer_advance_slot tile = Inr (t1, 0)"
      using assms dvd pos
      by (auto simp: fd_sequencer_advance_slot_def Let_def s_def[symmetric] len_def[symmetric] t1_def)
    then show ?thesis
      using False nat by (simp add: t1_def s_def[symmetric] len_def[symmetric])
  qed
qed

theorem advance_slot_spec_witness:
  "epoch_length_slots (cfg (tile_example\<lparr> current_slot := 431999 \<rparr>)) \<noteq> 0 \<and>
   (\<exists>tile'. fd_sequencer_advance_slot (tile_example\<lparr> current_slot := 431999 \<rparr>) = Inr (tile', 1) \<and>
            current_slot tile' = 432000 \<and> current_epoch tile' = 1)"
proof -
  define T where "T = tile_example\<lparr> current_slot := 431999 \<rparr>"
  have h: "epoch_length_slots (cfg T) \<noteq> 0"
    by (simp add: T_def tile_example_def FD_SEQUENCER_CFG_DEFAULT_def)
  have v: "current_slot T + 1 = 432000" "current_epoch T = 0" "epoch_length_slots (cfg T) = 432000"
    by (simp_all add: T_def tile_example_def FD_SEQUENCER_CFG_DEFAULT_def)
  obtain tile' flag where r: "fd_sequencer_advance_slot T = Inr (tile', flag)"
      "current_slot tile' = current_slot T + 1"
      "current_epoch tile' =
         (if current_slot tile' \<noteq> 0 \<and> unat (epoch_length_slots (cfg T)) dvd unat (current_slot tile')
          then current_epoch T + 1 else current_epoch T)"
      "flag =
         (if current_slot tile' \<noteq> 0 \<and> unat (epoch_length_slots (cfg T)) dvd unat (current_slot tile')
          then 1 else 0)"
    using advance_slot_spec[OF h] by blast
  have "current_slot tile' = 432000" using r(2) v by simp
  moreover from this have "current_epoch tile' = 1" "flag = 1" using r(3,4) v by simp_all
  ultimately show ?thesis using h r(1) unfolding T_def by blast
qed

section \<open>Fragment staging\<close>

lemma during_frag_oversized:
  "sz > FD_SEQUENCER_TXN_MTU \<Longrightarrow>
     fd_sequencer_tile_during_frag tile chunk sz = tile\<lparr> frag_buf_sz := 0 \<rparr>"
  by (simp add: fd_sequencer_tile_during_frag_def)

lemma after_frag_nothing_staged:
  "frag_buf_sz tile = 0 \<Longrightarrow> fd_sequencer_tile_after_frag tile opt_sig ticks = tile"
  by (simp add: fd_sequencer_tile_after_frag_def)

text \<open>
  Claim C8.  A fragment larger than the maximum transaction size resets the staged size to
  0, so nothing is staged, and the completion callback that follows returns the tile as it
  is: the queue, its count and the lifetime transaction counter are those from before the
  fragment.
\<close>

theorem oversized_fragment_dropped:
  assumes "sz > FD_SEQUENCER_TXN_MTU"
  shows "frag_buf_sz (fd_sequencer_tile_during_frag tile chunk sz) = 0 \<and>
         staged (fd_sequencer_tile_during_frag tile chunk sz) = [] \<and>
         fd_sequencer_tile_after_frag (fd_sequencer_tile_during_frag tile chunk sz) opt_sig ticks =
           fd_sequencer_tile_during_frag tile chunk sz \<and>
         tx_queue (fd_sequencer_tile_after_frag (fd_sequencer_tile_during_frag tile chunk sz) opt_sig ticks) =
           tx_queue tile \<and>
         tx_queue_cnt (fd_sequencer_tile_after_frag (fd_sequencer_tile_during_frag tile chunk sz) opt_sig ticks) =
           tx_queue_cnt tile \<and>
         txn_count (fd_sequencer_tile_after_frag (fd_sequencer_tile_during_frag tile chunk sz) opt_sig ticks) =
           txn_count tile"
proof -
  have d: "fd_sequencer_tile_during_frag tile chunk sz = tile\<lparr> frag_buf_sz := 0 \<rparr>"
    using assms by (rule during_frag_oversized)
  have a: "fd_sequencer_tile_after_frag (tile\<lparr> frag_buf_sz := 0 \<rparr>) opt_sig ticks = tile\<lparr> frag_buf_sz := 0 \<rparr>"
    by (rule after_frag_nothing_staged) simp
  show ?thesis unfolding d a by (simp add: staged_def)
qed

theorem oversized_fragment_dropped_witness:
  "(1233 :: ulong) > FD_SEQUENCER_TXN_MTU \<and>
   frag_buf_sz (fd_sequencer_tile_during_frag tile_example (replicate 1233 7) 1233) = 0 \<and>
   tx_queue_cnt (fd_sequencer_tile_after_frag
                   (fd_sequencer_tile_during_frag tile_example (replicate 1233 7) 1233) (Some 9000) 5) =
     tx_queue_cnt tile_example"
proof -
  have h: "(1233 :: ulong) > FD_SEQUENCER_TXN_MTU" by (simp add: FD_SEQUENCER_TXN_MTU_def)
  show ?thesis
    using h oversized_fragment_dropped[OF h, of tile_example "replicate 1233 7" "Some 9000" 5]
    by blast
qed

lemma during_frag_in_range:
  assumes "sz \<le> FD_SEQUENCER_TXN_MTU" and "unat sz \<le> length chunk"
  shows "staged (fd_sequencer_tile_during_frag tile chunk sz) = take (unat sz) chunk \<and>
         frag_buf_sz (fd_sequencer_tile_during_frag tile chunk sz) = sz"
proof -
  have "\<not> sz > FD_SEQUENCER_TXN_MTU" using assms(1) by simp
  then have "fd_sequencer_tile_during_frag tile chunk sz =
               tile\<lparr> frag_buf := fd_memcpy (frag_buf tile) chunk (unat sz), frag_buf_sz := sz \<rparr>"
    by (simp add: fd_sequencer_tile_during_frag_def)
  then show ?thesis using assms(2) by (simp add: staged_def fd_memcpy_def)
qed

lemma push_sift_up_root: "push_sift_up q 0 = q"
  by (subst push_sift_up.simps) simp

text \<open>
  Claim C6 says that the fragments of one logical transaction are appended in the staging
  buffer.  The comments of the two callbacks say as much (enqueueing waits "because the
  data may arrive in multiple chunks", and the completion callback runs when "the full
  fragment has been received"), but the code copies every fragment to offset 0 of the
  buffer and sets the staged size to the size of that fragment alone.  A transaction
  delivered as the two bytes 1, 2 and then the byte 3 is staged as the single byte 3 with
  size 1, not as 1, 2, 3 with size 3, and the completion callback enqueues that 1-byte
  payload: the first fragment is lost.
\<close>

theorem fragments_not_appended:
  "staged (fd_sequencer_tile_during_frag
             (fd_sequencer_tile_during_frag tile_example [1, 2] 2) [3] 1) = [3] \<and>
   frag_buf_sz (fd_sequencer_tile_during_frag
                  (fd_sequencer_tile_during_frag tile_example [1, 2] 2) [3] 1) = 1 \<and>
   staged (fd_sequencer_tile_during_frag
             (fd_sequencer_tile_during_frag tile_example [1, 2] 2) [3] 1) \<noteq> [1, 2] @ [3] \<and>
   tx_queue_cnt (fd_sequencer_tile_after_frag
                   (fd_sequencer_tile_during_frag
                      (fd_sequencer_tile_during_frag tile_example [1, 2] 2) [3] 1) None 5) = 1 \<and>
   payload_sz (tx_queue (fd_sequencer_tile_after_frag
                   (fd_sequencer_tile_during_frag
                      (fd_sequencer_tile_during_frag tile_example [1, 2] 2) [3] 1) None 5) ! 0) = 1 \<and>
   take 1 (payload (tx_queue (fd_sequencer_tile_after_frag
                   (fd_sequencer_tile_during_frag
                      (fd_sequencer_tile_during_frag tile_example [1, 2] 2) [3] 1) None 5) ! 0)) = [3]"
proof -
  define d2 where "d2 = fd_sequencer_tile_during_frag
                          (fd_sequencer_tile_during_frag tile_example [1, 2] 2) [3] 1"
  have h1: "(1 :: ulong) \<le> FD_SEQUENCER_TXN_MTU" by (simp add: FD_SEQUENCER_TXN_MTU_def)
  have h2: "unat (1 :: ulong) \<le> length [3 :: uchar]" by simp
  have st: "staged d2 = [3]" "frag_buf_sz d2 = 1"
    using during_frag_in_range[OF h1 h2, of "fd_sequencer_tile_during_frag tile_example [1, 2] 2"]
    by (simp_all add: d2_def)
  have fb: "take 1 (frag_buf d2) = [3]" using st by (simp add: staged_def)
  have q: "tx_queue d2 = replicate 8 txn_zero" "tx_queue_cnt d2 = 0" "tx_queue_cap d2 = 8"
    by (simp_all add: d2_def fd_sequencer_tile_during_frag_def FD_SEQUENCER_TXN_MTU_def tile_example_def)
  define a where "a = fd_sequencer_tile_after_frag d2 None 5"
  have "tx_queue_cnt a = 1 \<and> payload_sz (tx_queue a ! 0) = 1 \<and> take 1 (payload (tx_queue a ! 0)) = [3]"
    using st(2) q fb
    by (simp add: a_def fd_sequencer_tile_after_frag_def Let_def fd_sequencer_txn_queue_push_def
                  push_sift_up_root fd_memcpy_def txn_zero_def FD_SEQUENCER_TXN_MTU_def)
  then show ?thesis using st unfolding a_def d2_def by simp
qed

section \<open>Scratch sizing\<close>

text \<open>
  Claim C10.  The advertised scratch footprint is \<open>2^22\<close> bytes.  The size the
  initialisation requires, the tile structure plus 65536 queue entries of 1320 bytes each,
  is 86508992 bytes; an entry is larger than 1300 bytes and the queue alone larger than
  80 MiB.  So initialisation with a scratch region of the advertised size returns NULL.
\<close>

theorem init_with_advertised_footprint_fails:
  "fd_sequencer_tile_scratch_footprint = 2 ^ 22 \<and>
   unat sizeof_fd_sequencer_txn > 1300 \<and>
   unat FD_SEQUENCER_QUEUE_MAX * unat sizeof_fd_sequencer_txn > 80 * 2 ^ 20 \<and>
   unat (sizeof_fd_sequencer_tile + FD_SEQUENCER_QUEUE_MAX * sizeof_fd_sequencer_txn) = 86508992 \<and>
   fd_sequencer_tile_unprivileged_init scratch_queue fd_sequencer_tile_scratch_footprint ticks = None"
  by (simp add: fd_sequencer_tile_unprivileged_init_def fd_sequencer_tile_scratch_footprint_def
                FD_SEQUENCER_TILE_FOOTPRINT_def sizeof_fd_sequencer_tile_def
                sizeof_fd_sequencer_txn_def sizeof_fd_sequencer_cfg_def
                FD_SEQUENCER_QUEUE_MAX_def FD_SEQUENCER_TXN_MTU_def)


section \<open>Block construction on an empty queue\<close>

lemma build_block_drain_empty:
  "tx_queue_cnt tile = 0 \<Longrightarrow> build_block_drain tile txns_out 0 max_txns = Some (tile, txns_out, 0)"
  by (subst build_block_drain.simps) (simp add: pop_empty)

lemma build_block_empty:
  assumes "tx_queue_cnt tile = 0"
  shows "fd_sequencer_build_block sha256 ed25519_sign wallclock tile hdr txns_out max_txns =
           Some (tile,
                 hdr_zero\<lparr> hdr_slot := current_slot tile,
                            hdr_parent_hash := fd_memcpy (hdr_parent_hash hdr_zero) (parent_hash tile) 32,
                            hdr_sequencer_pubkey :=
                              fd_memcpy (hdr_sequencer_pubkey hdr_zero) (sequencer_identity tile) 32,
                            hdr_txn_count := 0 \<rparr>,
                 txns_out, 0)"
  by (simp add: fd_sequencer_build_block_def build_block_drain_empty[OF assms])

section \<open>The drain loop of block construction\<close>

lemma unat_uint_succ:
  assumes "(n :: uint) < m"
  shows "unat (n + 1) = Suc (unat n)" "n + 1 \<le> m"
proof -
  have l: "unat n < unat m" using assms by (simp add: word_less_nat_alt)
  have "unat m < 2 ^ 32" using unsigned_less[of m, where 'a=nat] by simp
  then have "unat n + unat (1 :: uint) < 2 ^ LENGTH(32)" using l by simp
  then show s: "unat (n + 1) = Suc (unat n)" using unat_add_lem[of n 1] by simp
  show "n + 1 \<le> m" using l s by (simp add: word_le_nat_alt)
qed

lemma stored_frame [simp]:
  "stored (tile\<lparr> tx_queue := q, tx_queue_cnt := c \<rparr>) = take (unat c) q"
  by (simp add: stored_def)

lemma build_block_drain_props:
  assumes "queue_inv tile" "unat max_txns \<le> length txns_out" "n \<le> max_txns"
  shows "\<exists>q' c txns' n'.
           build_block_drain tile txns_out n max_txns =
             Some (tile\<lparr> tx_queue := q', tx_queue_cnt := c \<rparr>, txns', n') \<and>
           queue_inv (tile\<lparr> tx_queue := q', tx_queue_cnt := c \<rparr>) \<and>
           n \<le> n' \<and> n' \<le> max_txns \<and>
           length txns' = length txns_out \<and>
           take (unat n) txns' = take (unat n) txns_out \<and>
           unat n' = unat n + min (unat max_txns - unat n) (unat (tx_queue_cnt tile)) \<and>
           (\<forall>B. (\<forall>y \<in> set (stored tile). fee y \<le> B) \<longrightarrow> (\<forall>x \<in> set (drained txns' n n'). fee x \<le> B)) \<and>
           fee_descending (drained txns' n n') \<and>
           mset (drained txns' n n') + mset (take (unat c) q') = mset (stored tile)"
  using assms
proof (induction tile txns_out n max_txns rule: build_block_drain.induct)
  case (1 tile txns_out n max_txns)
  have triv: "tile\<lparr> tx_queue := tx_queue tile, tx_queue_cnt := tx_queue_cnt tile \<rparr> = tile" by simp
  have stop: ?case
    if res: "build_block_drain tile txns_out n max_txns = Some (tile, txns_out, n)"
      and cnt: "min (unat max_txns - unat n) (unat (tx_queue_cnt tile)) = 0"
  proof -
    have "build_block_drain tile txns_out n max_txns =
            Some (tile\<lparr> tx_queue := tx_queue tile, tx_queue_cnt := tx_queue_cnt tile \<rparr>, txns_out, n)"
      using res by simp
    moreover have "queue_inv (tile\<lparr> tx_queue := tx_queue tile, tx_queue_cnt := tx_queue_cnt tile \<rparr>)"
      using "1.prems"(1) by simp
    moreover have "drained txns_out n n = []" by (simp add: drained_def)
    ultimately show ?thesis
      using "1.prems"(3) cnt
      by (intro exI[of _ "tx_queue tile"] exI[of _ "tx_queue_cnt tile"] exI[of _ txns_out] exI[of _ n])
         (simp add: fee_descending_def stored_def)
  qed
  show ?case
  proof (cases "n < max_txns")
    case False
    then have "build_block_drain tile txns_out n max_txns = Some (tile, txns_out, n)"
      by (subst build_block_drain.simps) simp
    moreover have "unat max_txns - unat n = 0" using False by (simp add: word_less_nat_alt)
    ultimately show ?thesis by (intro stop) simp_all
  next
    case lt: True
    show ?thesis
    proof (cases "tx_queue_cnt tile = 0")
      case True
      then have "build_block_drain tile txns_out n max_txns = Some (tile, txns_out, n)"
        using lt by (subst build_block_drain.simps) (simp add: pop_empty)
      then show ?thesis using True by (intro stop) simp_all
    next
      case ne: False
      define x where "x = tx_queue tile ! 0"
      obtain q1 where pop: "fd_sequencer_txn_queue_pop tile (txns_out ! unat n) =
                              Some (tile\<lparr> tx_queue := q1, tx_queue_cnt := tx_queue_cnt tile - 1 \<rparr>, x, 1)"
        and inv1: "queue_inv (tile\<lparr> tx_queue := q1, tx_queue_cnt := tx_queue_cnt tile - 1 \<rparr>)"
        and c1: "unat (tx_queue_cnt tile - 1) = unat (tx_queue_cnt tile) - 1"
        and ms1: "mset (take (unat (tx_queue_cnt tile - 1)) q1) = mset (stored tile) - {# x #}"
        using pop_nonempty[OF "1.prems"(1) ne, of "txns_out ! unat n"] unfolding x_def by blast
      define tile1 where "tile1 = tile\<lparr> tx_queue := q1, tx_queue_cnt := tx_queue_cnt tile - 1 \<rparr>"
      define out1 where "out1 = txns_out[unat n := x]"
      have suc: "unat (n + 1) = Suc (unat n)" "n + 1 \<le> max_txns" using unat_uint_succ[OF lt] by simp_all
      have nlen: "unat n < length txns_out"
        using lt "1.prems"(2) by (simp add: word_less_nat_alt)
      have unfold: "build_block_drain tile txns_out n max_txns =
                      build_block_drain tile1 out1 (n + 1) max_txns"
        using lt pop by (subst build_block_drain.simps) (simp add: tile1_def out1_def)
      have peek: "x \<in> set (stored tile)" "\<forall>y \<in> set (stored tile). fee y \<le> fee x"
        using peek_max[OF "1.prems"(1) ne] by (simp_all add: x_def)
      have sub: "set (stored tile1) \<subseteq> set (stored tile)"
      proof -
        have "mset (stored tile1) = mset (stored tile) - {# x #}" using ms1 by (simp add: tile1_def)
        then have "set_mset (mset (stored tile1)) \<subseteq> set_mset (mset (stored tile))"
          by (metis in_diffD subsetI)
        then show ?thesis by simp
      qed
      have "\<exists>q' c txns' n'.
           build_block_drain tile1 out1 (n + 1) max_txns =
             Some (tile1\<lparr> tx_queue := q', tx_queue_cnt := c \<rparr>, txns', n') \<and>
           queue_inv (tile1\<lparr> tx_queue := q', tx_queue_cnt := c \<rparr>) \<and>
           n + 1 \<le> n' \<and> n' \<le> max_txns \<and>
           length txns' = length out1 \<and>
           take (unat (n + 1)) txns' = take (unat (n + 1)) out1 \<and>
           unat n' = unat (n + 1) + min (unat max_txns - unat (n + 1)) (unat (tx_queue_cnt tile1)) \<and>
           (\<forall>B. (\<forall>y \<in> set (stored tile1). fee y \<le> B) \<longrightarrow> (\<forall>x \<in> set (drained txns' (n + 1) n'). fee x \<le> B)) \<and>
           fee_descending (drained txns' (n + 1) n') \<and>
           mset (drained txns' (n + 1) n') + mset (take (unat c) q') = mset (stored tile1)"
        unfolding tile1_def out1_def
        using "1.IH"[OF lt pop refl refl _ inv1 _ suc(2)] "1.prems"(2) by simp
      then obtain q' c txns' n' where
        r: "build_block_drain tile1 out1 (n + 1) max_txns =
              Some (tile1\<lparr> tx_queue := q', tx_queue_cnt := c \<rparr>, txns', n')"
        and inv': "queue_inv (tile1\<lparr> tx_queue := q', tx_queue_cnt := c \<rparr>)"
        and b: "n + 1 \<le> n'" "n' \<le> max_txns"
        and len': "length txns' = length out1"
        and pre: "take (unat (n + 1)) txns' = take (unat (n + 1)) out1"
        and cnt': "unat n' = unat (n + 1) + min (unat max_txns - unat (n + 1)) (unat (tx_queue_cnt tile1))"
        and bd: "\<And>B. (\<forall>y \<in> set (stored tile1). fee y \<le> B) \<Longrightarrow> (\<forall>x \<in> set (drained txns' (n + 1) n'). fee x \<le> B)"
        and srt: "fee_descending (drained txns' (n + 1) n')"
        and ms: "mset (drained txns' (n + 1) n') + mset (take (unat c) q') = mset (stored tile1)"
        by blast
      have frame: "tile1\<lparr> tx_queue := q', tx_queue_cnt := c \<rparr> = tile\<lparr> tx_queue := q', tx_queue_cnt := c \<rparr>"
        by (simp add: tile1_def)
      have n'gt: "unat n < unat n'" using b(1) suc(1) by (simp add: word_le_nat_alt)
      have n'len: "unat n' \<le> length txns'"
        using b(2) "1.prems"(2) len' by (simp add: word_le_nat_alt out1_def)
      have at: "txns' ! unat n = x"
      proof -
        have "txns' ! unat n = take (Suc (unat n)) txns' ! unat n" by simp
        also have "\<dots> = take (Suc (unat n)) out1 ! unat n" using pre suc(1) by simp
        also have "\<dots> = x" using nlen by (simp add: out1_def)
        finally show ?thesis .
      qed
      have pre0: "take (unat n) txns' = take (unat n) txns_out"
      proof -
        have "take (unat n) txns' = take (unat n) (take (Suc (unat n)) txns')" by simp
        also have "\<dots> = take (unat n) (take (Suc (unat n)) out1)" using pre suc(1) by simp
        also have "\<dots> = take (unat n) txns_out" by (simp add: out1_def)
        finally show ?thesis .
      qed
      have dr: "drained txns' n n' = x # drained txns' (n + 1) n'"
      proof -
        have l: "unat n < length (take (unat n') txns')" using n'gt n'len by simp
        have "drop (unat n) (take (unat n') txns') =
                take (unat n') txns' ! unat n # drop (Suc (unat n)) (take (unat n') txns')"
          by (rule Cons_nth_drop_Suc[OF l, symmetric])
        moreover have "take (unat n') txns' ! unat n = x" using at n'gt by simp
        ultimately show ?thesis unfolding drained_def suc(1) by simp
      qed
      have le_x: "\<forall>y \<in> set (drained txns' (n + 1) n'). fee y \<le> fee x"
        using bd[of "fee x"] sub peek(2) by blast
      have cpos: "0 < unat (tx_queue_cnt tile)" using ne by (simp add: unat_gt_0)
      have mpos: "unat n < unat max_txns" using lt by (simp add: word_less_nat_alt)
      have cnt: "unat n' = unat n + min (unat max_txns - unat n) (unat (tx_queue_cnt tile))"
        using cnt' suc(1) c1 cpos mpos by (simp add: tile1_def)
      have bound: "\<forall>B. (\<forall>y \<in> set (stored tile). fee y \<le> B) \<longrightarrow> (\<forall>z \<in> set (drained txns' n n'). fee z \<le> B)"
      proof (intro allI impI)
        fix B assume B: "\<forall>y \<in> set (stored tile). fee y \<le> B"
        then have "\<forall>y \<in> set (stored tile1). fee y \<le> B" using sub by blast
        then have "\<forall>z \<in> set (drained txns' (n + 1) n'). fee z \<le> B" by (rule bd)
        then show "\<forall>z \<in> set (drained txns' n n'). fee z \<le> B" using dr B peek(1) by simp
      qed
      have sorted: "fee_descending (drained txns' n n')"
        using srt le_x dr by (simp add: fee_descending_def)
      have "x \<in># mset (stored tile)" using peek(1) by simp
      then have mset: "mset (drained txns' n n') + mset (take (unat c) q') = mset (stored tile)"
        using ms ms1 dr by (simp add: tile1_def)
      have n_le: "n \<le> n'" using n'gt by (simp add: word_le_nat_alt)
      have "build_block_drain tile txns_out n max_txns =
              Some (tile\<lparr> tx_queue := q', tx_queue_cnt := c \<rparr>, txns', n')"
        using unfold r frame by simp
      moreover have "queue_inv (tile\<lparr> tx_queue := q', tx_queue_cnt := c \<rparr>)" using inv' frame by simp
      moreover have "length txns' = length txns_out" using len' by (simp add: out1_def)
      ultimately show ?thesis
        using n_le b(2) pre0 cnt bound sorted mset by blast
    qed
  qed
qed


section \<open>The heap invariant along sequences of queue operations\<close>

lemma push_keeps_queue_inv:
  assumes "queue_inv tile"
  shows "queue_inv (fst (fd_sequencer_txn_queue_push tile txn))"
proof (cases "tx_queue_cap tile \<le> tx_queue_cnt tile")
  case True
  then show ?thesis using assms by (simp add: push_full)
next
  case False
  then have "tx_queue_cnt tile < tx_queue_cap tile" by simp
  from push_room[OF assms this, of txn] show ?thesis by auto
qed

lemma queue_apply_keeps_queue_inv:
  assumes "queue_inv tile"
  shows "\<exists>tile'. queue_apply tile qop = Some tile' \<and> queue_inv tile'"
proof (cases qop)
  case (Push txn)
  then show ?thesis using push_keeps_queue_inv[OF assms] by simp
next
  case (Pop out)
  show ?thesis
  proof (cases "tx_queue_cnt tile = 0")
    case True
    then show ?thesis using assms Pop by (simp add: pop_empty)
  next
    case False
    from pop_nonempty[OF assms False, of out] show ?thesis using Pop by auto
  qed
qed

lemma queue_run_keeps_queue_inv:
  "queue_inv tile \<Longrightarrow> \<exists>tile'. queue_run tile qops = Some tile' \<and> queue_inv tile'"
proof (induction qops arbitrary: tile)
  case Nil
  then show ?case by simp
next
  case (Cons qop qops)
  obtain tile1 where s: "queue_apply tile qop = Some tile1" "queue_inv tile1"
    using queue_apply_keeps_queue_inv[OF Cons.prems] by blast
  from Cons.IH[OF s(2)] show ?case using s(1) by simp
qed

lemma push_all_keeps_queue_inv:
  "queue_inv tile \<Longrightarrow> queue_inv (push_all tile txns)"
  by (induction txns arbitrary: tile) (simp_all add: push_keeps_queue_inv)

lemma queue_inv_empty:
  assumes "tx_queue_cnt tile = 0" "unat (tx_queue_cap tile) \<le> length (tx_queue tile)"
    "unat (tx_queue_cap tile) < 2 ^ 63"
  shows "queue_inv tile"
  using assms by (simp add: queue_inv_def queue_wf_def is_max_heap_def)

lemma queue_inv_queue_example: "queue_inv queue_example"
  by (rule queue_inv_empty) (simp_all add: queue_example_def)

lemma queue_inv_init:
  assumes "fd_sequencer_tile_unprivileged_init scratch_queue scratch_sz ticks = Some tile"
    and "unat FD_SEQUENCER_QUEUE_MAX \<le> length scratch_queue"
  shows "queue_inv tile"
proof -
  have "tx_queue_cnt tile = 0" "tx_queue_cap tile = FD_SEQUENCER_QUEUE_MAX" "tx_queue tile = scratch_queue"
    using assms(1)
    by (auto simp: fd_sequencer_tile_unprivileged_init_def Let_def split: if_splits)
  then show ?thesis using assms(2) by (intro queue_inv_empty) (simp_all add: FD_SEQUENCER_QUEUE_MAX_def)
qed

text \<open>
  Claim C1.  From a well-formed queue in heap order (an empty queue is one), every sequence
  of push and pop operations returns, and the state it leaves has its stored entries in
  max-heap order and its count within the capacity; if the queue is then not empty, peek
  returns a stored entry whose fee no stored entry exceeds.  A push beyond the capacity is
  rejected, so no sequence exceeds the capacity.
\<close>

theorem queue_heap_invariant:
  assumes "queue_inv tile"
  shows "\<exists>tile'. queue_run tile qops = Some tile' \<and>
           is_max_heap (tx_queue tile') (unat (tx_queue_cnt tile')) \<and>
           tx_queue_cnt tile' \<le> tx_queue_cap tile' \<and>
           (tx_queue_cnt tile' \<noteq> 0 \<longrightarrow>
              (\<exists>x. fd_sequencer_txn_queue_peek tile' = Some x \<and> is_max_fee tile' x))"
proof -
  obtain tile' where r: "queue_run tile qops = Some tile'" "queue_inv tile'"
    using queue_run_keeps_queue_inv[OF assms] by blast
  have "is_max_heap (tx_queue tile') (unat (tx_queue_cnt tile'))" "tx_queue_cnt tile' \<le> tx_queue_cap tile'"
    using r(2) by (simp_all add: queue_inv_def queue_wf_def)
  moreover have "\<exists>x. fd_sequencer_txn_queue_peek tile' = Some x \<and> is_max_fee tile' x"
    if "tx_queue_cnt tile' \<noteq> 0"
    using peek_max[OF r(2) that] by (simp add: is_max_fee_def)
  ultimately show ?thesis using r(1) by blast
qed

theorem queue_heap_invariant_witness:
  "queue_inv queue_example \<and>
   (\<exists>tile'. queue_run queue_example
               [Push (txn_of_fee 100), Push (txn_of_fee 500), Pop (txn_of_fee 0),
                Push (txn_of_fee 200), Push (txn_of_fee 900)] = Some tile' \<and>
             is_max_heap (tx_queue tile') (unat (tx_queue_cnt tile')) \<and>
             tx_queue_cnt tile' \<le> tx_queue_cap tile' \<and>
             (tx_queue_cnt tile' \<noteq> 0 \<longrightarrow>
                (\<exists>x. fd_sequencer_txn_queue_peek tile' = Some x \<and> is_max_fee tile' x)))"
  using queue_inv_queue_example
        queue_heap_invariant[OF queue_inv_queue_example,
          of "[Push (txn_of_fee 100), Push (txn_of_fee 500), Pop (txn_of_fee 0),
               Push (txn_of_fee 200), Push (txn_of_fee 900)]"]
  by blast

section \<open>Drain order\<close>

lemma build_block_drain_unfold [code]:
  "build_block_drain tile txns_out n max_txns =
     (if n < max_txns then
        (if fd_sequencer_txn_queue_pop tile (txns_out ! unat n) = None then None
         else if snd (snd (the (fd_sequencer_txn_queue_pop tile (txns_out ! unat n)))) = 0
           then Some (fst (the (fd_sequencer_txn_queue_pop tile (txns_out ! unat n))), txns_out, n)
         else build_block_drain
                (fst (the (fd_sequencer_txn_queue_pop tile (txns_out ! unat n))))
                (txns_out[unat n := fst (snd (the (fd_sequencer_txn_queue_pop tile (txns_out ! unat n))))])
                (n + 1) max_txns)
      else Some (tile, txns_out, n))"
  by (subst build_block_drain.simps) (auto split: option.splits)

lemma scenario_peek:
  "map_option fee (fd_sequencer_txn_queue_peek
     (push_all queue_example (map txn_of_fee [100, 500, 200, 900, 300]))) = Some 900"
  by code_simp

lemma scenario_drain:
  "map_option (\<lambda>(tile', txns', n). (map fee (drained txns' 0 n), n))
     (build_block_drain (push_all queue_example (map txn_of_fee [100, 500, 200, 900, 300]))
        (replicate 5 (txn_of_fee 0)) 0 5) = Some ([900, 500, 300, 200, 100], 5)"
  by code_simp

text \<open>
  Claim C4.  On a well-formed queue in heap order the drain loop (repeated pop, at most
  \<open>max_txns\<close> times, into an array with room for that many entries) returns; it drains as
  many entries as asked for or as the queue holds, whichever is less, and the fees of the
  drained entries, in pop order, never increase.  After pushing entries with fees 100, 500,
  200, 900, 300 into the empty example queue, peek returns an entry with fee 900 and
  draining five entries yields the fees 900, 500, 300, 200, 100 in this order.
\<close>

theorem drain_fee_descending:
  "(queue_inv tile \<and> unat max_txns \<le> length txns_out \<longrightarrow>
      (\<exists>tile' txns' n.
         build_block_drain tile txns_out 0 max_txns = Some (tile', txns', n) \<and>
         unat n = min (unat max_txns) (unat (tx_queue_cnt tile)) \<and>
         fee_descending (drained txns' 0 n))) \<and>
   map_option fee (fd_sequencer_txn_queue_peek
     (push_all queue_example (map txn_of_fee [100, 500, 200, 900, 300]))) = Some 900 \<and>
   map_option (\<lambda>(tile', txns', n). (map fee (drained txns' 0 n), n))
     (build_block_drain (push_all queue_example (map txn_of_fee [100, 500, 200, 900, 300]))
        (replicate 5 (txn_of_fee 0)) 0 5) = Some ([900, 500, 300, 200, 100], 5)"
proof (intro conjI impI)
  assume a: "queue_inv tile \<and> unat max_txns \<le> length txns_out"
  then have "queue_inv tile" "unat max_txns \<le> length txns_out" by simp_all
  from build_block_drain_props[OF this, of 0]
  show "\<exists>tile' txns' n.
         build_block_drain tile txns_out 0 max_txns = Some (tile', txns', n) \<and>
         unat n = min (unat max_txns) (unat (tx_queue_cnt tile)) \<and>
         fee_descending (drained txns' 0 n)"
    by auto
qed (rule scenario_peek, rule scenario_drain)

theorem drain_fee_descending_witness:
  "queue_inv (push_all queue_example (map txn_of_fee [100, 500, 200, 900, 300])) \<and>
   unat (5 :: uint) \<le> length (replicate 5 (txn_of_fee 0)) \<and>
   (\<exists>tile' txns' n.
      build_block_drain (push_all queue_example (map txn_of_fee [100, 500, 200, 900, 300]))
        (replicate 5 (txn_of_fee 0)) 0 5 = Some (tile', txns', n) \<and>
      fee_descending (drained txns' 0 n))"
proof -
  have h1: "queue_inv (push_all queue_example (map txn_of_fee [100, 500, 200, 900, 300]))"
    by (rule push_all_keeps_queue_inv[OF queue_inv_queue_example])
  have h2: "unat (5 :: uint) \<le> length (replicate 5 (txn_of_fee 0))" by simp
  show ?thesis
    using h1 h2
          drain_fee_descending[of "push_all queue_example (map txn_of_fee [100, 500, 200, 900, 300])"
                                  5 "replicate 5 (txn_of_fee 0)"]
    by blast
qed


section \<open>Block production by the housekeeping callback\<close>

lemma fd_memcpy_whole:
  "length src = n \<Longrightarrow> length dst = n \<Longrightarrow> fd_memcpy dst src n = src"
  by (simp add: fd_memcpy_def)

lemma hdr_wf_hdr_zero: "hdr_wf hdr_zero"
  by (simp add: hdr_wf_def hdr_zero_def)

lemma advance_slot_returns:
  assumes "epoch_length_slots (cfg tile) \<noteq> 0"
  shows "\<exists>e flag. fd_sequencer_advance_slot tile =
                    Inr (tile\<lparr> current_slot := current_slot tile + 1,
                               block_count := block_count tile + 1,
                               current_epoch := e \<rparr>, flag)"
proof -
  define t1 where "t1 = tile\<lparr> current_slot := current_slot tile + 1, block_count := block_count tile + 1 \<rparr>"
  have a: "t1 = t1\<lparr> current_epoch := current_epoch tile \<rparr>" by (simp add: t1_def)
  have "fd_sequencer_advance_slot tile = Inr (t1\<lparr> current_epoch := current_epoch tile + 1 \<rparr>, 1) \<or>
        fd_sequencer_advance_slot tile = Inr (t1\<lparr> current_epoch := current_epoch tile \<rparr>, 0)"
    using assms by (auto simp: fd_sequencer_advance_slot_def Let_def t1_def)
  then show ?thesis unfolding t1_def by blast
qed

lemma housekeeping_not_due:
  "housekeeping_elapsed_ns tile now < block_time_ns (cfg tile) \<Longrightarrow>
     fd_sequencer_tile_during_housekeeping sha256 ed25519_sign tile now wallclock hdr txns_out
       stack_avail = Some (Inr (tile, None))"
  by (simp add: fd_sequencer_tile_during_housekeeping_def)

lemma housekeeping_stack_overflow:
  "\<not> housekeeping_elapsed_ns tile now < block_time_ns (cfg tile) \<Longrightarrow>
   stack_avail < housekeeping_stack_frame \<Longrightarrow>
     fd_sequencer_tile_during_housekeeping sha256 ed25519_sign tile now wallclock hdr txns_out
       stack_avail = Some (Inl StackOverflow)"
  by (simp add: fd_sequencer_tile_during_housekeeping_def)

lemma unat_housekeeping_stack_frame: "unat housekeeping_stack_frame = 13200184"
  by (simp add: housekeeping_stack_frame_def sizeof_fd_sequencer_txn_def
                sizeof_fd_sequencer_block_hdr_def offsetof_signature_def FD_SEQUENCER_TXN_MTU_def)

lemma housekeeping_due:
  assumes due: "\<not> housekeeping_elapsed_ns tile now < block_time_ns (cfg tile)"
    and bb: "fd_sequencer_build_block sha256 ed25519_sign wallclock tile hdr txns_out
               (if max_txns_per_block (cfg tile) > 10000 then 10000 else max_txns_per_block (cfg tile)) =
             Some (tile1, hdr1, txns1, txn_cnt)"
    and ep: "epoch_length_slots (cfg tile1) \<noteq> 0"
    and st: "housekeeping_stack_frame \<le> stack_avail"
  shows "\<exists>e. fd_sequencer_tile_during_housekeeping sha256 ed25519_sign tile now wallclock hdr txns_out
               stack_avail =
           Some (Inr (tile1\<lparr> parent_hash := fd_memcpy (parent_hash tile1) (sha256 (hdr_bytes hdr1)) 32,
                            current_slot := current_slot tile1 + 1,
                            block_count := block_count tile1 + 1,
                            current_epoch := e,
                            block_start_ticks := now \<rparr>,
                      Some (hdr1, take (unat txn_cnt) txns1)))"
proof -
  define tile2 where "tile2 = tile1\<lparr> parent_hash := fd_memcpy (parent_hash tile1) (sha256 (hdr_bytes hdr1)) 32 \<rparr>"
  have "epoch_length_slots (cfg tile2) \<noteq> 0" using ep by (simp add: tile2_def)
  then obtain e flag where adv: "fd_sequencer_advance_slot tile2 =
      Inr (tile2\<lparr> current_slot := current_slot tile2 + 1, block_count := block_count tile2 + 1,
                  current_epoch := e \<rparr>, flag)"
    using advance_slot_returns by blast
  have "\<not> stack_avail < housekeeping_stack_frame" using st by simp
  then have "fd_sequencer_tile_during_housekeeping sha256 ed25519_sign tile now wallclock hdr txns_out
               stack_avail =
          Some (Inr (tile2\<lparr> current_slot := current_slot tile2 + 1, block_count := block_count tile2 + 1,
                           current_epoch := e, block_start_ticks := now \<rparr>,
                     Some (hdr1, take (unat txn_cnt) txns1)))"
    using due bb adv
    by (simp add: fd_sequencer_tile_during_housekeeping_def Let_def tile2_def[symmetric])
  then show ?thesis by (auto simp: tile2_def)
qed

lemma empty_block_produced_given_stack:
  assumes "tx_queue_cnt tile = 0"
    and "\<not> housekeeping_elapsed_ns tile now < block_time_ns (cfg tile)"
    and "epoch_length_slots (cfg tile) \<noteq> 0"
    and "tile_arrays_wf tile"
    and "housekeeping_stack_frame \<le> stack_avail"
  shows "\<exists>tile' hdr'.
           fd_sequencer_tile_during_housekeeping sha256 ed25519_sign tile now wallclock hdr txns_out
             stack_avail = Some (Inr (tile', Some (hdr', []))) \<and>
           hdr_txn_count hdr' = 0 \<and>
           hdr_slot hdr' = current_slot tile \<and>
           hdr_parent_hash hdr' = parent_hash tile \<and>
           hdr_sequencer_pubkey hdr' = sequencer_identity tile \<and>
           current_slot tile' = current_slot tile + 1 \<and>
           tx_queue_cnt tile' = 0"
proof -
  define hdr1 where "hdr1 = hdr_zero\<lparr> hdr_slot := current_slot tile,
                            hdr_parent_hash := fd_memcpy (hdr_parent_hash hdr_zero) (parent_hash tile) 32,
                            hdr_sequencer_pubkey :=
                              fd_memcpy (hdr_sequencer_pubkey hdr_zero) (sequencer_identity tile) 32,
                            hdr_txn_count := 0 \<rparr>"
  have bb: "fd_sequencer_build_block sha256 ed25519_sign wallclock tile hdr txns_out
               (if max_txns_per_block (cfg tile) > 10000 then 10000 else max_txns_per_block (cfg tile)) =
             Some (tile, hdr1, txns_out, 0)"
    unfolding hdr1_def by (rule build_block_empty[OF assms(1)])
  obtain e where r: "fd_sequencer_tile_during_housekeeping sha256 ed25519_sign tile now wallclock hdr txns_out
                       stack_avail =
           Some (Inr (tile\<lparr> parent_hash := fd_memcpy (parent_hash tile) (sha256 (hdr_bytes hdr1)) 32,
                            current_slot := current_slot tile + 1,
                            block_count := block_count tile + 1,
                            current_epoch := e,
                            block_start_ticks := now \<rparr>,
                      Some (hdr1, take (unat (0 :: uint)) txns_out)))"
    using housekeeping_due[OF assms(2) bb assms(3,5)] by blast
  have ph: "hdr_parent_hash hdr1 = parent_hash tile"
    using assms(4) by (simp add: hdr1_def hdr_zero_def tile_arrays_wf_def fd_memcpy_whole)
  have pk: "hdr_sequencer_pubkey hdr1 = sequencer_identity tile"
    using assms(4) by (simp add: hdr1_def hdr_zero_def tile_arrays_wf_def fd_memcpy_whole)
  have "hdr_txn_count hdr1 = 0" "hdr_slot hdr1 = current_slot tile" by (simp_all add: hdr1_def)
  then show ?thesis using r ph pk assms(1) by simp
qed

lemma tile_example_facts:
  "tx_queue_cnt tile_example = 0" "epoch_length_slots (cfg tile_example) \<noteq> 0"
  "tile_arrays_wf tile_example" "block_start_ticks tile_example = 0"
  "block_time_ns (cfg tile_example) = 400000000"
  by (simp_all add: tile_example_def FD_SEQUENCER_CFG_DEFAULT_def tile_arrays_wf_def)

text \<open>
  Claim C9 says that block production on an empty queue still yields a header with
  transaction count 0 and does not fail.  With room on the stack the code does so
  (\<open>empty_block_produced_given_stack\<close>).  But the block-producing part of the housekeeping
  callback keeps 10000 queue entries and the header on the stack, 13200184 bytes, although
  its comment says the bound of 10000 is there to avoid blowing the stack: whenever the
  interval has elapsed and the thread has less stack than that left, as with the usual
  8 MiB stack, the call faults and produces no header, also on an empty queue.
\<close>

theorem empty_block_stack_overflow:
  assumes "tx_queue_cnt tile = 0"
    and "\<not> housekeeping_elapsed_ns tile now < block_time_ns (cfg tile)"
    and "stack_avail < housekeeping_stack_frame"
  shows "fd_sequencer_tile_during_housekeeping sha256 ed25519_sign tile now wallclock hdr txns_out
           stack_avail = Some (Inl StackOverflow) \<and>
         unat housekeeping_stack_frame = 13200184"
  using assms by (simp add: housekeeping_stack_overflow unat_housekeeping_stack_frame)

theorem empty_block_stack_overflow_witness:
  "tx_queue_cnt tile_example = 0 \<and>
   \<not> housekeeping_elapsed_ns tile_example 400000000 < block_time_ns (cfg tile_example) \<and>
   stack_default < housekeeping_stack_frame \<and>
   unat stack_default = 8388608 \<and>
   fd_sequencer_tile_during_housekeeping sha256_example ed25519_sign_example
     tile_example 400000000 1000 hdr_zero txns_out_example stack_default = Some (Inl StackOverflow)"
proof -
  have h2: "\<not> housekeeping_elapsed_ns tile_example 400000000 < block_time_ns (cfg tile_example)"
    by (simp add: housekeeping_elapsed_ns_def Let_def tile_example_facts word_sless_alt)
  have d: "unat stack_default = 8388608" by (simp add: stack_default_def)
  have h3: "stack_default < housekeeping_stack_frame"
    using d unat_housekeeping_stack_frame by (simp add: word_less_nat_alt)
  show ?thesis
    using tile_example_facts(1) h2 h3 d
          empty_block_stack_overflow[OF tile_example_facts(1) h2 h3,
            of sha256_example ed25519_sign_example 1000 hdr_zero txns_out_example]
    by blast
qed

section \<open>The parent-hash chain\<close>

lemma queue_inv_frame:
  "queue_inv tile \<Longrightarrow> tx_queue tile' = tx_queue tile \<Longrightarrow> tx_queue_cnt tile' = tx_queue_cnt tile
     \<Longrightarrow> tx_queue_cap tile' = tx_queue_cap tile \<Longrightarrow> queue_inv tile'"
  by (simp add: queue_inv_def queue_wf_def)

lemma build_block_total:
  assumes inv: "queue_inv tile" and wf: "tile_arrays_wf tile" and hw: "hdr_wf hdr"
    and len: "unat (ucast max_txns :: uint) \<le> length txns_out"
  shows "\<exists>q c f hdr1 txns1 n.
           fd_sequencer_build_block sha256 ed25519_sign wallclock tile hdr txns_out max_txns =
             Some (tile\<lparr> tx_queue := q, tx_queue_cnt := c, fee_total := f \<rparr>, hdr1, txns1, n) \<and>
           queue_inv (tile\<lparr> tx_queue := q, tx_queue_cnt := c, fee_total := f \<rparr>) \<and>
           hdr_parent_hash hdr1 = parent_hash tile \<and>
           hdr_slot hdr1 = current_slot tile \<and>
           hdr_sequencer_pubkey hdr1 = sequencer_identity tile \<and>
           hdr_txn_count hdr1 = n"
proof -
  obtain q c txns1 n where
    d: "build_block_drain tile txns_out 0 (ucast max_txns) =
          Some (tile\<lparr> tx_queue := q, tx_queue_cnt := c \<rparr>, txns1, n)"
    and i1: "queue_inv (tile\<lparr> tx_queue := q, tx_queue_cnt := c \<rparr>)"
    using build_block_drain_props[OF inv len, of 0] by auto
  define tile1 where "tile1 = tile\<lparr> tx_queue := q, tx_queue_cnt := c \<rparr>"
  have l: "length (parent_hash tile) = 32" "length (sequencer_identity tile) = 32"
      "length (hdr_parent_hash hdr) = 32" "length (hdr_sequencer_pubkey hdr) = 32"
      "length (hdr_parent_hash hdr_zero) = 32" "length (hdr_sequencer_pubkey hdr_zero) = 32"
    using wf hw hdr_wf_hdr_zero by (simp_all add: tile_arrays_wf_def hdr_wf_def)
  have cp: "fd_memcpy (hdr_parent_hash hdr) (parent_hash tile) 32 = parent_hash tile"
      "fd_memcpy (hdr_sequencer_pubkey hdr) (sequencer_identity tile) 32 = sequencer_identity tile"
      "fd_memcpy (hdr_parent_hash hdr_zero) (parent_hash tile) 32 = parent_hash tile"
      "fd_memcpy (hdr_sequencer_pubkey hdr_zero) (sequencer_identity tile) 32 = sequencer_identity tile"
    using l by (simp_all add: fd_memcpy_whole)
  show ?thesis
  proof (cases "n = 0")
    case True
    define hdr1 where "hdr1 = hdr_zero\<lparr> hdr_slot := current_slot tile,
                            hdr_parent_hash := parent_hash tile,
                            hdr_sequencer_pubkey := sequencer_identity tile,
                            hdr_txn_count := 0 \<rparr>"
    have "fd_sequencer_build_block sha256 ed25519_sign wallclock tile hdr txns_out max_txns =
            Some (tile\<lparr> tx_queue := q, tx_queue_cnt := c, fee_total := fee_total tile \<rparr>, hdr1, txns1, n)"
      using d True cp by (simp add: fd_sequencer_build_block_def hdr1_def)
    moreover have "queue_inv (tile\<lparr> tx_queue := q, tx_queue_cnt := c, fee_total := fee_total tile \<rparr>)"
      using i1 by simp
    moreover have "hdr_parent_hash hdr1 = parent_hash tile" "hdr_slot hdr1 = current_slot tile"
        "hdr_sequencer_pubkey hdr1 = sequencer_identity tile" "hdr_txn_count hdr1 = n"
      using True by (simp_all add: hdr1_def)
    ultimately show ?thesis by blast
  next
    case False
    define f where "f = fold (\<lambda>i total. total + fee (txns1 ! i)) [0..<unat n] (fee_total tile)"
    define hdr1 where "hdr1 = hdr\<lparr> hdr_slot := current_slot tile,
                             hdr_txn_count := n,
                             hdr_timestamp := wallclock,
                             hdr_parent_hash := parent_hash tile,
                             hdr_merkle_root :=
                               fd_memcpy (hdr_merkle_root hdr)
                                 (sha256 (concat (map (\<lambda>i. take 64 (sig (txns1 ! i))) [0..<unat n]))) 32,
                             hdr_sequencer_pubkey := sequencer_identity tile \<rparr>"
    define hdr2 where "hdr2 = hdr1\<lparr> hdr_signature :=
                                fd_memcpy (hdr_signature hdr1)
                                  (ed25519_sign (take (unat offsetof_signature) (hdr_bytes hdr1))
                                     (sequencer_identity tile) (sequencer_privkey tile)) 64 \<rparr>"
    have "fd_sequencer_build_block sha256 ed25519_sign wallclock tile hdr txns_out max_txns =
            Some (tile\<lparr> tx_queue := q, tx_queue_cnt := c, fee_total := f \<rparr>, hdr2, txns1, n)"
      using d False cp
      by (simp add: fd_sequencer_build_block_def Let_def hdr2_def hdr1_def f_def)
    moreover have "queue_inv (tile\<lparr> tx_queue := q, tx_queue_cnt := c, fee_total := f \<rparr>)"
      using i1 by (rule queue_inv_frame) simp_all
    moreover have "hdr_parent_hash hdr2 = parent_hash tile" "hdr_slot hdr2 = current_slot tile"
        "hdr_sequencer_pubkey hdr2 = sequencer_identity tile" "hdr_txn_count hdr2 = n"
      by (simp_all add: hdr2_def hdr1_def)
    ultimately show ?thesis by blast
  qed
qed


lemma during_frag_keeps_tile_ok:
  assumes ok: "tile_ok tile" and wf: "event_wf (DuringFrag chunk sz)"
  shows "tile_ok (fd_sequencer_tile_during_frag tile chunk sz) \<and>
         parent_hash (fd_sequencer_tile_during_frag tile chunk sz) = parent_hash tile \<and>
         block_start_ticks (fd_sequencer_tile_during_frag tile chunk sz) = block_start_ticks tile \<and>
         cfg (fd_sequencer_tile_during_frag tile chunk sz) = cfg tile"
proof (cases "sz > FD_SEQUENCER_TXN_MTU")
  case True
  then show ?thesis
    using ok by (simp add: during_frag_oversized tile_ok_def queue_inv_def queue_wf_def tile_arrays_wf_def)
next
  case False
  then have le: "sz \<le> FD_SEQUENCER_TXN_MTU" by simp
  then have a: "unat sz \<le> length chunk" using wf by simp
  have b: "unat sz \<le> unat FD_SEQUENCER_TXN_MTU" using le by (simp add: word_le_nat_alt)
  have "length (frag_buf tile) = unat FD_SEQUENCER_TXN_MTU" using ok by (simp add: tile_ok_def tile_arrays_wf_def)
  then have "length (fd_memcpy (frag_buf tile) chunk (unat sz)) = unat FD_SEQUENCER_TXN_MTU"
    using a b by (simp add: fd_memcpy_def)
  then show ?thesis
    using ok False
    by (simp add: fd_sequencer_tile_during_frag_def tile_ok_def queue_inv_def queue_wf_def tile_arrays_wf_def)
qed

lemma after_frag_keeps_tile_ok:
  assumes ok: "tile_ok tile"
  shows "tile_ok (fd_sequencer_tile_after_frag tile opt_sig ticks) \<and>
         parent_hash (fd_sequencer_tile_after_frag tile opt_sig ticks) = parent_hash tile \<and>
         block_start_ticks (fd_sequencer_tile_after_frag tile opt_sig ticks) = block_start_ticks tile \<and>
         cfg (fd_sequencer_tile_after_frag tile opt_sig ticks) = cfg tile"
proof (cases "frag_buf_sz tile = 0")
  case True
  then show ?thesis using ok by (simp add: after_frag_nothing_staged)
next
  case False
  have inv: "queue_inv tile" using ok by (simp add: tile_ok_def)
  obtain txn where
    r: "fd_sequencer_tile_after_frag tile opt_sig ticks =
          (case fd_sequencer_txn_queue_push tile txn of
             (tile', r) \<Rightarrow>
               if r = 0 then tile'\<lparr> frag_buf_sz := 0 \<rparr>
               else tile'\<lparr> txn_count := txn_count tile' + 1, frag_buf_sz := 0 \<rparr>)"
    using False by (simp add: fd_sequencer_tile_after_frag_def Let_def)
  obtain q' c r' where p: "fd_sequencer_txn_queue_push tile txn = (tile\<lparr> tx_queue := q', tx_queue_cnt := c \<rparr>, r')"
    using push_frame by blast
  have "queue_inv (tile\<lparr> tx_queue := q', tx_queue_cnt := c \<rparr>)"
    using push_keeps_queue_inv[OF inv, of txn] p by simp
  then have q: "queue_inv (tile\<lparr> tx_queue := q', tx_queue_cnt := c \<rparr>\<lparr> frag_buf_sz := 0 \<rparr>)"
      "queue_inv (tile\<lparr> tx_queue := q', tx_queue_cnt := c \<rparr>\<lparr> txn_count := txn_count tile + 1, frag_buf_sz := 0 \<rparr>)"
    by (simp_all add: queue_inv_def queue_wf_def)
  show ?thesis
    using ok q unfolding r p
    by (simp add: tile_ok_def tile_arrays_wf_def)
qed

lemma ucast_clamped_le:
  "unat (ucast (if (m :: ulong) > 10000 then 10000 else m) :: uint) \<le> 10000"
proof -
  have a: "unat (if m > 10000 then 10000 else m) \<le> 10000"
    by (auto simp: word_less_nat_alt not_less word_le_nat_alt)
  have "unat (ucast (if m > 10000 then 10000 else m) :: uint) \<le> unat (if m > 10000 then 10000 else m)"
    by (simp add: unsigned_ucast_eq take_bit_nat_less_eq_self)
  then show ?thesis using a by linarith
qed

lemma housekeeping_produces:
  assumes ok: "tile_ok tile" and dg: "digest_size_ok sha256"
    and wf: "event_wf (Housekeeping now wallclock hdr txns_out stack_avail)"
    and due: "\<not> housekeeping_elapsed_ns tile now < block_time_ns (cfg tile)"
    and st: "housekeeping_stack_frame \<le> stack_avail"
  shows "\<exists>tile' h.
           tile_step sha256 ed25519_sign tile (Housekeeping now wallclock hdr txns_out stack_avail) = Some (tile', [h]) \<and>
           tile_ok tile' \<and> hdr_parent_hash h = parent_hash tile \<and>
           parent_hash tile' = sha256 (hdr_bytes h) \<and>
           block_start_ticks tile' = now \<and> cfg tile' = cfg tile"
proof -
  have inv: "queue_inv tile" and arr: "tile_arrays_wf tile" and ep: "epoch_length_slots (cfg tile) \<noteq> 0"
    using ok by (simp_all add: tile_ok_def)
  have hw: "hdr_wf hdr" and len: "length txns_out = 10000" using wf by simp_all
  define m where "m = (if max_txns_per_block (cfg tile) > 10000 then 10000 else max_txns_per_block (cfg tile))"
  have ml: "unat (ucast m :: uint) \<le> length txns_out"
    unfolding m_def len by (rule ucast_clamped_le)
  obtain q c f hdr1 txns1 n where
    bb: "fd_sequencer_build_block sha256 ed25519_sign wallclock tile hdr txns_out m =
           Some (tile\<lparr> tx_queue := q, tx_queue_cnt := c, fee_total := f \<rparr>, hdr1, txns1, n)"
    and i1: "queue_inv (tile\<lparr> tx_queue := q, tx_queue_cnt := c, fee_total := f \<rparr>)"
    and ph: "hdr_parent_hash hdr1 = parent_hash tile"
    using build_block_total[OF inv arr hw ml] by blast
  define tile1 where "tile1 = tile\<lparr> tx_queue := q, tx_queue_cnt := c, fee_total := f \<rparr>"
  have ep1: "epoch_length_slots (cfg tile1) \<noteq> 0" using ep by (simp add: tile1_def)
  obtain e where
    r: "fd_sequencer_tile_during_housekeeping sha256 ed25519_sign tile now wallclock hdr txns_out
          stack_avail =
           Some (Inr (tile1\<lparr> parent_hash := fd_memcpy (parent_hash tile1) (sha256 (hdr_bytes hdr1)) 32,
                            current_slot := current_slot tile1 + 1,
                            block_count := block_count tile1 + 1,
                            current_epoch := e,
                            block_start_ticks := now \<rparr>,
                      Some (hdr1, take (unat n) txns1)))"
    using housekeeping_due[OF due bb[unfolded m_def tile1_def[symmetric]] ep1 st] by blast
  define tile' where "tile' = tile1\<lparr> parent_hash := fd_memcpy (parent_hash tile1) (sha256 (hdr_bytes hdr1)) 32,
                            current_slot := current_slot tile1 + 1,
                            block_count := block_count tile1 + 1,
                            current_epoch := e,
                            block_start_ticks := now \<rparr>"
  have "length (parent_hash tile1) = 32" using arr by (simp add: tile1_def tile_arrays_wf_def)
  moreover have "length (sha256 (hdr_bytes hdr1)) = 32" using dg by (simp add: digest_size_ok_def)
  ultimately have p': "parent_hash tile' = sha256 (hdr_bytes hdr1)"
    by (simp add: tile'_def fd_memcpy_whole)
  have "queue_inv tile'" using i1 by (rule queue_inv_frame) (simp_all add: tile'_def tile1_def)
  moreover have "tile_arrays_wf tile'"
    using arr p' dg by (simp add: tile_arrays_wf_def digest_size_ok_def) (simp add: tile'_def tile1_def)
  moreover have "epoch_length_slots (cfg tile') \<noteq> 0" using ep by (simp add: tile'_def tile1_def)
  ultimately have ok': "tile_ok tile'" by (simp add: tile_ok_def)
  have "tile_step sha256 ed25519_sign tile (Housekeeping now wallclock hdr txns_out stack_avail) = Some (tile', [hdr1])"
    using r by (simp add: tile'_def)
  moreover have "block_start_ticks tile' = now" "cfg tile' = cfg tile" by (simp_all add: tile'_def tile1_def)
  ultimately show ?thesis using ok' ph p' by blast
qed

lemma housekeeping_step_sound:
  assumes ok: "tile_ok tile" and dg: "digest_size_ok sha256"
    and wf: "event_wf (Housekeeping now wallclock hdr txns_out stack_avail)"
    and res: "tile_step sha256 ed25519_sign tile (Housekeeping now wallclock hdr txns_out stack_avail) =
                Some (tile', hs)"
  shows "tile_ok tile' \<and>
         (hs = [] \<and> parent_hash tile' = parent_hash tile \<or>
          (\<exists>h. hs = [h] \<and> hdr_parent_hash h = parent_hash tile \<and>
                parent_hash tile' = sha256 (hdr_bytes h)))"
proof (cases "housekeeping_elapsed_ns tile now < block_time_ns (cfg tile)")
  case True
  then have "tile' = tile" "hs = []" using res by (simp_all add: housekeeping_not_due)
  then show ?thesis using ok by simp
next
  case due: False
  show ?thesis
  proof (cases "stack_avail < housekeeping_stack_frame")
    case True
    then show ?thesis using res due by (simp add: housekeeping_stack_overflow)
  next
    case False
    then have st: "housekeeping_stack_frame \<le> stack_avail" by simp
    from housekeeping_produces[OF ok dg wf due st, of ed25519_sign] res
    show ?thesis by auto
  qed
qed

lemma housekeeping_step_returns:
  assumes ok: "tile_ok tile" and dg: "digest_size_ok sha256"
    and wf: "event_wf (Housekeeping now wallclock hdr txns_out stack_avail)"
    and st: "housekeeping_stack_frame \<le> stack_avail"
  shows "\<exists>tile' hs.
           tile_step sha256 ed25519_sign tile (Housekeeping now wallclock hdr txns_out stack_avail) =
             Some (tile', hs)"
proof (cases "housekeeping_elapsed_ns tile now < block_time_ns (cfg tile)")
  case True
  then show ?thesis by (simp add: housekeeping_not_due)
next
  case False
  from housekeeping_produces[OF ok dg wf False st, of ed25519_sign] show ?thesis by blast
qed

lemma tile_step_sound:
  assumes ok: "tile_ok tile" and dg: "digest_size_ok sha256" and wf: "event_wf ev"
    and res: "tile_step sha256 ed25519_sign tile ev = Some (tile', hs)"
  shows "tile_ok tile' \<and>
         (hs = [] \<and> parent_hash tile' = parent_hash tile \<or>
          (\<exists>h. hs = [h] \<and> hdr_parent_hash h = parent_hash tile \<and>
                parent_hash tile' = sha256 (hdr_bytes h)))"
proof (cases ev)
  case (DuringFrag chunk sz)
  then show ?thesis using during_frag_keeps_tile_ok[OF ok, of chunk sz] wf res by auto
next
  case (AfterFrag opt_sig ticks)
  then show ?thesis using after_frag_keeps_tile_ok[OF ok, of opt_sig ticks] res by auto
next
  case (Housekeeping now wallclock hdr txns_out stack_avail)
  then show ?thesis using housekeeping_step_sound[OF ok dg] wf res by blast
qed

lemma tile_step_returns:
  assumes ok: "tile_ok tile" and dg: "digest_size_ok sha256" and wf: "event_wf ev"
    and st: "event_stack_ok ev"
  shows "\<exists>tile' hs. tile_step sha256 ed25519_sign tile ev = Some (tile', hs)"
proof (cases ev)
  case (DuringFrag chunk sz)
  then show ?thesis by simp
next
  case (AfterFrag opt_sig ticks)
  then show ?thesis by simp
next
  case (Housekeeping now wallclock hdr txns_out stack_avail)
  then show ?thesis using housekeeping_step_returns[OF ok dg] wf st by simp
qed

lemma tile_run_chain:
  assumes "tile_ok tile" "digest_size_ok sha256" "\<forall>ev \<in> set evs. event_wf ev"
    and "tile_run sha256 ed25519_sign tile evs = Some (tile', hs)"
  shows "tile_ok tile' \<and> chained sha256 hs \<and>
         (hs = [] \<longrightarrow> parent_hash tile' = parent_hash tile) \<and>
         (hs \<noteq> [] \<longrightarrow> hdr_parent_hash (hd hs) = parent_hash tile \<and>
                        parent_hash tile' = sha256 (hdr_bytes (last hs)))"
  using assms
proof (induction evs arbitrary: tile hs tile')
  case Nil
  then show ?case by simp
next
  case (Cons ev evs)
  have wf: "event_wf ev" and wfs: "\<forall>ev \<in> set evs. event_wf ev" using Cons.prems(3) by simp_all
  obtain tile1 hs1 tile2 hs2 where
    s: "tile_step sha256 ed25519_sign tile ev = Some (tile1, hs1)"
    and r: "tile_run sha256 ed25519_sign tile1 evs = Some (tile2, hs2)"
    and e: "tile' = tile2" "hs = hs1 @ hs2"
    using Cons.prems(4) by (auto split: option.splits)
  have ok1: "tile_ok tile1"
    and c1: "hs1 = [] \<and> parent_hash tile1 = parent_hash tile \<or>
             (\<exists>h. hs1 = [h] \<and> hdr_parent_hash h = parent_hash tile \<and>
                   parent_hash tile1 = sha256 (hdr_bytes h))"
    using tile_step_sound[OF Cons.prems(1,2) wf s] by simp_all
  have ok2: "tile_ok tile2" and ch: "chained sha256 hs2"
    and e2: "hs2 = [] \<longrightarrow> parent_hash tile2 = parent_hash tile1"
    and n2: "hs2 \<noteq> [] \<longrightarrow> hdr_parent_hash (hd hs2) = parent_hash tile1 \<and>
                             parent_hash tile2 = sha256 (hdr_bytes (last hs2))"
    using Cons.IH[OF ok1 Cons.prems(2) wfs r] by simp_all
  from c1 show ?case
  proof
    assume a: "hs1 = [] \<and> parent_hash tile1 = parent_hash tile"
    then show ?thesis using e ok2 ch e2 n2 by simp
  next
    assume "\<exists>h. hs1 = [h] \<and> hdr_parent_hash h = parent_hash tile \<and>
                 parent_hash tile1 = sha256 (hdr_bytes h)"
    then obtain h where h: "hs1 = [h]" "hdr_parent_hash h = parent_hash tile"
        "parent_hash tile1 = sha256 (hdr_bytes h)" by blast
    have "chained sha256 (h # hs2)"
      using ch n2 h(3) by (cases hs2) simp_all
    moreover have "parent_hash tile2 = sha256 (hdr_bytes (last (h # hs2)))"
      using e2 n2 h(3) by (cases hs2) simp_all
    ultimately show ?thesis using e ok2 h by simp
  qed
qed

lemma tile_run_returns:
  assumes "tile_ok tile" "digest_size_ok sha256" "\<forall>ev \<in> set evs. event_wf ev"
    and "\<forall>ev \<in> set evs. event_stack_ok ev"
  shows "\<exists>tile' hs. tile_run sha256 ed25519_sign tile evs = Some (tile', hs)"
  using assms
proof (induction evs arbitrary: tile)
  case Nil
  then show ?case by simp
next
  case (Cons ev evs)
  have wf: "event_wf ev" and wfs: "\<forall>ev \<in> set evs. event_wf ev"
    and st: "event_stack_ok ev" and sts: "\<forall>ev \<in> set evs. event_stack_ok ev"
    using Cons.prems(3,4) by simp_all
  obtain tile1 hs1 where s: "tile_step sha256 ed25519_sign tile ev = Some (tile1, hs1)"
    using tile_step_returns[OF Cons.prems(1,2) wf st] by blast
  have ok1: "tile_ok tile1" using tile_step_sound[OF Cons.prems(1,2) wf s] by simp
  from Cons.IH[OF ok1 Cons.prems(2) wfs sts] show ?case using s by auto
qed

text \<open>
  Claim C3.  Take any sequence of callbacks on a tile in good state.  If every housekeeping
  call in it has room on the stack, the sequence returns.  Whenever it returns, the headers
  of the blocks produced along it form a chain: each header after the first carries, in
  its parent-hash field, the hash of the full bytes of the header produced before it; and
  after a sequence that produced a block, the rolling parent hash of the tile is the hash
  of the full bytes of the last header produced.  (Taking a sequence that ends with a
  producing housekeeping call gives the first half of the claim.)
\<close>

theorem parent_hash_chain:
  assumes "tile_ok tile" and "digest_size_ok sha256" and "list_all event_wf evs"
  shows "(list_all event_stack_ok evs \<longrightarrow>
            (\<exists>tile' hdrs. tile_run sha256 ed25519_sign tile evs = Some (tile', hdrs))) \<and>
         (\<forall>tile' hdrs.
            tile_run sha256 ed25519_sign tile evs = Some (tile', hdrs) \<longrightarrow>
              chained sha256 hdrs \<and>
              (hdrs \<noteq> [] \<longrightarrow> parent_hash tile' = sha256 (hdr_bytes (last hdrs))))"
proof -
  have wf: "\<forall>ev \<in> set evs. event_wf ev" using assms(3) by (simp add: list_all_iff)
  have "\<exists>tile' hdrs. tile_run sha256 ed25519_sign tile evs = Some (tile', hdrs)"
    if "list_all event_stack_ok evs"
  proof -
    have "\<forall>ev \<in> set evs. event_stack_ok ev" using that by (simp add: list_all_iff)
    then show ?thesis by (rule tile_run_returns[OF assms(1,2) wf])
  qed
  moreover have "chained sha256 hdrs \<and>
                 (hdrs \<noteq> [] \<longrightarrow> parent_hash tile' = sha256 (hdr_bytes (last hdrs)))"
    if "tile_run sha256 ed25519_sign tile evs = Some (tile', hdrs)" for tile' hdrs
    using tile_run_chain[OF assms(1,2) wf that] by blast
  ultimately show ?thesis by blast
qed

lemma tile_ok_tile_example: "tile_ok tile_example"
proof -
  have "queue_inv tile_example"
    by (rule queue_inv_empty) (simp_all add: tile_example_def)
  then show ?thesis using tile_example_facts(2,3) by (simp add: tile_ok_def)
qed

lemma digest_size_ok_example: "digest_size_ok sha256_example"
  by (auto simp: digest_size_ok_def sha256_example_def)

lemma event_wf_events_example: "list_all event_wf events_example"
  by (simp add: events_example_def hdr_wf_hdr_zero txns_out_example_def FD_SEQUENCER_TXN_MTU_def)

lemma stack_64MiB_ok: "housekeeping_stack_frame \<le> 64 * 2 ^ 20"
proof -
  have "unat (64 * 2 ^ 20 :: ulong) = 67108864" by simp
  then show ?thesis using unat_housekeeping_stack_frame by (simp add: word_le_nat_alt)
qed

lemma event_stack_ok_events_example: "list_all event_stack_ok events_example"
  using stack_64MiB_ok by (simp add: events_example_def)

theorem parent_hash_chain_witness:
  "tile_ok tile_example \<and> digest_size_ok sha256_example \<and>
   list_all event_wf events_example \<and> list_all event_stack_ok events_example \<and>
   (\<exists>tile' h1 h2.
      tile_run sha256_example ed25519_sign_example tile_example events_example = Some (tile', [h1, h2]) \<and>
      hdr_parent_hash h2 = sha256_example (hdr_bytes h1) \<and>
      parent_hash tile' = sha256_example (hdr_bytes h2))"
proof -
  have wf1: "event_wf (Housekeeping 400000000 1000 hdr_zero txns_out_example (64 * 2 ^ 20))"
    and wf2: "event_wf (DuringFrag [1, 2, 3] 3)"
    and wf4: "event_wf (Housekeeping 800000000 2000 hdr_zero txns_out_example (64 * 2 ^ 20))"
    using event_wf_events_example by (simp_all add: events_example_def)
  have due1: "\<not> housekeeping_elapsed_ns tile_example 400000000 < block_time_ns (cfg tile_example)"
    by (simp add: housekeeping_elapsed_ns_def Let_def tile_example_facts word_sless_alt)
  obtain t1 h1 where
    s1: "tile_step sha256_example ed25519_sign_example tile_example
           (Housekeeping 400000000 1000 hdr_zero txns_out_example (64 * 2 ^ 20)) = Some (t1, [h1])"
    and ok1: "tile_ok t1" and b1: "block_start_ticks t1 = 400000000" and c1: "cfg t1 = cfg tile_example"
    using housekeeping_produces[OF tile_ok_tile_example digest_size_ok_example wf1 due1 stack_64MiB_ok]
    by blast
  define t2 where "t2 = fd_sequencer_tile_during_frag t1 [1, 2, 3] 3"
  have ok2: "tile_ok t2" and b2: "block_start_ticks t2 = 400000000" and c2: "cfg t2 = cfg tile_example"
    using during_frag_keeps_tile_ok[OF ok1 wf2] b1 c1 by (simp_all add: t2_def)
  define t3 where "t3 = fd_sequencer_tile_after_frag t2 (Some 7000) 5"
  have ok3: "tile_ok t3" and b3: "block_start_ticks t3 = 400000000" and c3: "cfg t3 = cfg tile_example"
    using after_frag_keeps_tile_ok[OF ok2, of "Some 7000" 5] b2 c2 by (simp_all add: t3_def)
  have due2: "\<not> housekeeping_elapsed_ns t3 800000000 < block_time_ns (cfg t3)"
    by (simp add: housekeeping_elapsed_ns_def Let_def b3 c3 tile_example_facts word_sless_alt)
  obtain t4 h2 where
    s4: "tile_step sha256_example ed25519_sign_example t3
           (Housekeeping 800000000 2000 hdr_zero txns_out_example (64 * 2 ^ 20)) = Some (t4, [h2])"
    using housekeeping_produces[OF ok3 digest_size_ok_example wf4 due2 stack_64MiB_ok] by blast
  have run: "tile_run sha256_example ed25519_sign_example tile_example events_example = Some (t4, [h1, h2])"
    using s1 s4 by (simp add: events_example_def t2_def[symmetric] t3_def[symmetric])
  have "chained sha256_example [h1, h2] \<and>
        ([h1, h2] \<noteq> [] \<longrightarrow> parent_hash t4 = sha256_example (hdr_bytes (last [h1, h2])))"
    using parent_hash_chain[OF tile_ok_tile_example digest_size_ok_example event_wf_events_example,
                            of ed25519_sign_example]
          run
    by blast
  then have "hdr_parent_hash h2 = sha256_example (hdr_bytes h1)"
      "parent_hash t4 = sha256_example (hdr_bytes h2)"
    by simp_all
  then show ?thesis
    using run tile_ok_tile_example digest_size_ok_example event_wf_events_example
          event_stack_ok_events_example
    by blast
qed

section \<open>Signing of block headers\<close>

lemma length_le_bytes [simp]: "length (le_bytes n w) = n"
  by (simp add: le_bytes_def)

lemma length_hdr_bytes:
  "hdr_wf h \<Longrightarrow> length (hdr_bytes h) = unat sizeof_fd_sequencer_block_hdr"
  by (simp add: hdr_wf_def hdr_bytes_def sizeof_fd_sequencer_block_hdr_def offsetof_signature_def)

lemma take_offsetof_signature:
  assumes "length (hdr_parent_hash h) = 32" "length (hdr_merkle_root h) = 32"
    "length (hdr_sequencer_pubkey h) = 32"
  shows "take (unat offsetof_signature) (hdr_bytes h) =
           le_bytes 8 (hdr_slot h) @ hdr_parent_hash h @ hdr_merkle_root h @
           le_bytes 8 (hdr_timestamp h) @ hdr_sequencer_pubkey h @ le_bytes 4 (hdr_txn_count h)"
proof -
  define pre where "pre = le_bytes 8 (hdr_slot h) @ hdr_parent_hash h @ hdr_merkle_root h @
           le_bytes 8 (hdr_timestamp h) @ hdr_sequencer_pubkey h @ le_bytes 4 (hdr_txn_count h)"
  have l: "length pre = 116" using assms by (simp add: pre_def)
  have "hdr_bytes h = pre @ (hdr_signature h @ hdr_padding h)" by (simp add: hdr_bytes_def pre_def)
  then have "take 116 (hdr_bytes h) = pre" using l by simp
  then show ?thesis by (simp add: offsetof_signature_def pre_def)
qed

lemma nonempty_block_signed:
  assumes inv: "queue_inv tile" and wf: "tile_arrays_wf tile" and hw: "hdr_wf hdr"
    and len: "unat (ucast max_txns :: uint) \<le> length txns_out"
    and ne: "tx_queue_cnt tile \<noteq> 0" and mx: "(ucast max_txns :: uint) \<noteq> 0"
    and dg: "digest_size_ok sha256"
    and sg: "\<forall>m pub priv. length (ed25519_sign m pub priv) = 64"
  shows "\<exists>tile' hdr' txns' n.
           fd_sequencer_build_block sha256 ed25519_sign wallclock tile hdr txns_out max_txns =
             Some (tile', hdr', txns', n) \<and> n \<noteq> 0 \<and>
           hdr_signature hdr' =
             ed25519_sign (take (unat offsetof_signature) (hdr_bytes hdr'))
               (sequencer_identity tile) (sequencer_privkey tile)"
proof -
  obtain q c txns1 n where
    d: "build_block_drain tile txns_out 0 (ucast max_txns) =
          Some (tile\<lparr> tx_queue := q, tx_queue_cnt := c \<rparr>, txns1, n)"
    and cnt: "unat n = unat (0 :: uint) + min (unat (ucast max_txns :: uint) - unat (0 :: uint)) (unat (tx_queue_cnt tile))"
    using build_block_drain_props[OF inv len, of 0] by auto
  have "0 < unat (tx_queue_cnt tile)" "0 < unat (ucast max_txns :: uint)"
    using ne mx by (simp_all add: unat_gt_0)
  then have "0 < unat n" using cnt by simp
  then have n0: "n \<noteq> 0" by (simp add: unat_gt_0)
  define hdr1 where "hdr1 = hdr\<lparr> hdr_slot := current_slot tile,
                             hdr_txn_count := n,
                             hdr_timestamp := wallclock,
                             hdr_parent_hash := fd_memcpy (hdr_parent_hash hdr) (parent_hash tile) 32,
                             hdr_merkle_root :=
                               fd_memcpy (hdr_merkle_root hdr)
                                 (sha256 (concat (map (\<lambda>i. take 64 (sig (txns1 ! i))) [0..<unat n]))) 32,
                             hdr_sequencer_pubkey :=
                               fd_memcpy (hdr_sequencer_pubkey hdr) (sequencer_identity tile) 32 \<rparr>"
  define s where "s = ed25519_sign (take (unat offsetof_signature) (hdr_bytes hdr1))
                        (sequencer_identity tile) (sequencer_privkey tile)"
  define hdr2 where "hdr2 = hdr1\<lparr> hdr_signature := fd_memcpy (hdr_signature hdr1) s 64 \<rparr>"
  define f where "f = fold (\<lambda>i total. total + fee (txns1 ! i)) [0..<unat n] (fee_total tile)"
  have res: "fd_sequencer_build_block sha256 ed25519_sign wallclock tile hdr txns_out max_txns =
               Some (tile\<lparr> tx_queue := q, tx_queue_cnt := c, fee_total := f \<rparr>, hdr2, txns1, n)"
    using d n0 by (simp add: fd_sequencer_build_block_def Let_def hdr2_def s_def hdr1_def f_def)
  have l1: "length (hdr_parent_hash hdr1) = 32" "length (hdr_merkle_root hdr1) = 32"
      "length (hdr_sequencer_pubkey hdr1) = 32" "length (hdr_signature hdr1) = 64"
    using wf hw dg
    by (simp_all add: hdr1_def fd_memcpy_def tile_arrays_wf_def hdr_wf_def digest_size_ok_def)
  have "length s = 64" using sg by (simp add: s_def)
  then have sig2: "hdr_signature hdr2 = s" using l1(4) by (simp add: hdr2_def fd_memcpy_whole)
  have l2: "length (hdr_parent_hash hdr2) = 32" "length (hdr_merkle_root hdr2) = 32"
      "length (hdr_sequencer_pubkey hdr2) = 32"
    using l1 by (simp_all add: hdr2_def)
  have "take (unat offsetof_signature) (hdr_bytes hdr2) = take (unat offsetof_signature) (hdr_bytes hdr1)"
    unfolding take_offsetof_signature[OF l2] take_offsetof_signature[OF l1(1-3)]
    by (simp add: hdr2_def)
  then have "hdr_signature hdr2 =
               ed25519_sign (take (unat offsetof_signature) (hdr_bytes hdr2))
                 (sequencer_identity tile) (sequencer_privkey tile)"
    using sig2 by (simp add: s_def)
  then show ?thesis using res n0 by blast
qed

text \<open>
  Claim C2 says that every header block assembly produces, also one with no transactions,
  carries a signature over the header bytes before the signature field.  On an empty queue
  the code zero-fills the header, sets slot, parent hash, public key and count, and returns
  before the signing step: the signature field of the header is 64 zero bytes, whatever the
  signing function and the keys are (and the timestamp stays 0).
\<close>

theorem empty_block_not_signed:
  assumes "tx_queue_cnt tile = 0"
  shows "\<exists>hdr'. fd_sequencer_build_block sha256 ed25519_sign wallclock tile hdr txns_out max_txns =
                  Some (tile, hdr', txns_out, 0) \<and>
                hdr_signature hdr' = replicate 64 0 \<and> hdr_timestamp hdr' = 0"
  by (simp add: build_block_empty[OF assms] hdr_zero_def)

theorem empty_block_not_signed_witness:
  "tx_queue_cnt tile_example = 0 \<and>
   (\<exists>hdr'. fd_sequencer_build_block sha256_example ed25519_sign_example 1000
              tile_example hdr_zero txns_out_example 10000 =
              Some (tile_example, hdr', txns_out_example, 0) \<and>
            hdr_signature hdr' = replicate 64 0 \<and>
            hdr_signature hdr' \<noteq>
              ed25519_sign_example (take (unat offsetof_signature) (hdr_bytes hdr'))
                (sequencer_identity tile_example) (sequencer_privkey tile_example))"
proof -
  have h: "tx_queue_cnt tile_example = 0" by (simp add: tile_example_def)
  have ne: "replicate 64 (0 :: uchar) \<noteq> ed25519_sign_example m pub priv" for m pub priv
    by (simp add: ed25519_sign_example_def replicate_eq_replicate)
  obtain hdr' where
    r: "fd_sequencer_build_block sha256_example ed25519_sign_example 1000
          tile_example hdr_zero txns_out_example 10000 =
          Some (tile_example, hdr', txns_out_example, 0)"
    and z: "hdr_signature hdr' = replicate 64 0"
    using empty_block_not_signed[OF h, of sha256_example ed25519_sign_example 1000
                                   hdr_zero txns_out_example 10000]
    by blast
  show ?thesis using h r z ne by auto
qed

end
